theory Spec2Isabelle
  imports Main "HOL-Library.Multiset"
begin

section \<open>Data model (types.ts)\<close>

text \<open>
  The interfaces of \<^verbatim>\<open>types.ts\<close> as records. A nullable string
  (\<^verbatim>\<open>string | null\<close>) is a \<^typ>\<open>string option\<close>. A \<open>sortOrder\<close> is a
  \<^verbatim>\<open>number\<close>, an IEEE 754 double; the specification has it hold an integer, and the
  model covers the integer values a double can hold, as an \<^typ>\<open>int\<close>. Comparing two of
  them and taking the greater is exact; adding one is not, see \<open>number_plus_one\<close>.
\<close>

record Folder =
  folder_id :: string
  folder_name :: string
  folder_color :: string
  folder_parentId :: "string option"
  folder_sortOrder :: int

record Field =
  field_id :: string
  field_title :: string
  field_content :: string

text \<open>
  \<^verbatim>\<open>ImageField\<close> is \<^verbatim>\<open>{id, caption}\<close>. Documents written by older versions carry
  the picture inline under a \<^verbatim>\<open>dataUrl\<close> key, which the migration reads through
  \<^verbatim>\<open>any\<close>. \<open>image_dataUrl\<close> is \<open>None\<close> when the key is absent and \<open>Some s\<close>
  when it is present with value \<open>s\<close>.
\<close>

record ImageField =
  image_id :: string
  image_caption :: string
  image_dataUrl :: "string option"

record ImageData =
  data_id :: string
  data_dataUrl :: string

datatype Section =
    FieldsSection string string "Field list"
  | ImagesSection string string "ImageField list"

record Article =
  article_id :: string
  article_title :: string
  article_folderId :: string
  article_sortOrder :: int
  article_sections :: "Section list"
  article_relatedArticleIds :: "string list"
  article_parentId :: "string option"

record ProjectState =
  folders :: "Folder list"
  articles :: "Article list"
  expandedFolderIds :: "string list"
  expandedArticleIds :: "string list"

section \<open>JavaScript primitives used by the handlers\<close>

text \<open>Truthiness of a \<^verbatim>\<open>string | null | undefined\<close> value: only a non-empty string is truthy.\<close>

definition truthy :: "string option \<Rightarrow> bool" where
  "truthy v = (case v of None \<Rightarrow> False | Some s \<Rightarrow> s \<noteq> [])"

text \<open>
  A JavaScript \<^verbatim>\<open>Set\<close> keeps its members in insertion order and \<^verbatim>\<open>Array.from\<close>
  lists them in that order, so a \<^verbatim>\<open>Set\<close> is a duplicate-free list: \<open>Set_add\<close> appends
  a new member at the end and leaves the set alone when the member is there already.
\<close>

definition Set_has :: "'a list \<Rightarrow> 'a \<Rightarrow> bool" where
  "Set_has s x = (x \<in> set s)"

definition Set_add :: "'a list \<Rightarrow> 'a \<Rightarrow> 'a list" where
  "Set_add s x = (if Set_has s x then s else s @ [x])"

definition Set_delete :: "'a list \<Rightarrow> 'a \<Rightarrow> 'a list" where
  "Set_delete s x = filter (\<lambda>y. y \<noteq> x) s"

definition Set_new :: "'a list \<Rightarrow> 'a list" where
  "Set_new xs = foldl Set_add [] xs"

text \<open>
  \<^verbatim>\<open>x + 1\<close> on a \<^verbatim>\<open>number\<close> that holds an integer. From \<open>-2^53\<close> up to, but not
  including, \<open>2^53\<close> the sum is exact. From \<open>2^53\<close> up to \<open>2^54\<close>, and from
  \<open>-2^54\<close> up to \<open>-2^53\<close>, the doubles are the even integers, \<open>x + 1\<close> lies
  halfway between \<open>x\<close> and \<open>x + 2\<close>, and the sum is rounded to the one of the two
  whose significand \<open>x div 2\<close> or \<open>x div 2 + 1\<close> is even. Further out the doubles are
  at least 4 apart and the sum is rounded back to \<open>x\<close>.
\<close>

definition number_plus_one :: "int \<Rightarrow> int" where
  "number_plus_one x =
     (if - 9007199254740992 \<le> x \<and> x < 9007199254740992 then x + 1
      else if - 18014398509481984 \<le> x \<and> x < 18014398509481984
        then (if even (x div 2) then x else x + 2)
      else x)"

text \<open>\<^verbatim>\<open>Array.prototype.findIndex\<close>: the first position that satisfies the test, or -1.\<close>

fun findIndex :: "('a \<Rightarrow> bool) \<Rightarrow> 'a list \<Rightarrow> int" where
  "findIndex P [] = -1"
| "findIndex P (x # xs) =
     (if P x then 0 else (let i = findIndex P xs in if i = -1 then -1 else i + 1))"

text \<open>Array indexing: \<^verbatim>\<open>xs[i]\<close> is \<^verbatim>\<open>undefined\<close> outside the array.\<close>

definition at_index :: "'a list \<Rightarrow> int \<Rightarrow> 'a option" where
  "at_index xs i = (if 0 \<le> i \<and> i < int (length xs) then Some (xs ! nat i) else None)"

section \<open>Project state updaters (App.tsx)\<close>

subsection \<open>Expansion toggles\<close>

text \<open>
  Every state updater starts with \<^verbatim>\<open>if (!prev) return null\<close>; the state is a
  \<^typ>\<open>ProjectState option\<close> and \<open>None\<close> is \<^verbatim>\<open>null\<close>.
\<close>

definition handleToggleFolderExpansion :: "string \<Rightarrow> ProjectState option \<Rightarrow> ProjectState option" where
  "handleToggleFolderExpansion folderId prev =
     (case prev of
        None \<Rightarrow> None
      | Some p \<Rightarrow>
          (let newExpanded = Set_new (expandedFolderIds p) in
           Some (p\<lparr>expandedFolderIds :=
                     (if Set_has newExpanded folderId then Set_delete newExpanded folderId
                      else Set_add newExpanded folderId)\<rparr>)))"

definition handleToggleArticleExpansion :: "string \<Rightarrow> ProjectState option \<Rightarrow> ProjectState option" where
  "handleToggleArticleExpansion articleId prev =
     (case prev of
        None \<Rightarrow> None
      | Some p \<Rightarrow>
          (let newExpanded = Set_new (expandedArticleIds p) in
           Some (p\<lparr>expandedArticleIds :=
                     (if Set_has newExpanded articleId then Set_delete newExpanded articleId
                      else Set_add newExpanded articleId)\<rparr>)))"

subsection \<open>Folder updaters\<close>

definition handleUpdateFolder :: "string \<Rightarrow> string \<Rightarrow> string \<Rightarrow> ProjectState option \<Rightarrow> ProjectState option" where
  "handleUpdateFolder folderId newName newColor prev =
     (case prev of
        None \<Rightarrow> None
      | Some p \<Rightarrow>
          Some (p\<lparr>folders :=
                    map (\<lambda>folder. if folder_id folder = folderId
                                   then folder\<lparr>folder_name := newName, folder_color := newColor\<rparr>
                                   else folder)
                        (folders p)\<rparr>))"

datatype direction = Up | Down

datatype js_error = TypeError

text \<open>
  The exchange at the end of \<^verbatim>\<open>handleReorderFolder\<close>. The source reads
  \<^verbatim>\<open>targetSibling!.sortOrder\<close> without a test, which throws when the array read
  gave \<^verbatim>\<open>undefined\<close>.
\<close>

definition reorderFolder_swap :: "ProjectState \<Rightarrow> Folder \<Rightarrow> Folder option \<Rightarrow> js_error + ProjectState option" where
  "reorderFolder_swap p folderToMove target =
     (case target of
        None \<Rightarrow> Inl TypeError
      | Some targetSibling \<Rightarrow>
          Inr (Some (p\<lparr>folders :=
                 map (\<lambda>f. if folder_id f = folder_id folderToMove
                              then f\<lparr>folder_sortOrder := folder_sortOrder targetSibling\<rparr>
                            else if folder_id f = folder_id targetSibling
                              then f\<lparr>folder_sortOrder := folder_sortOrder folderToMove\<rparr>
                            else f)
                     (folders p)\<rparr>)))"

text \<open>
  \<^verbatim>\<open>Array.prototype.sort\<close> is stable, and so is \<^const>\<open>sort_key\<close>; the sort works on the
  fresh array that \<^verbatim>\<open>filter\<close> returned, so the state is not touched by it.
\<close>

definition handleReorderFolder :: "string \<Rightarrow> direction \<Rightarrow> ProjectState option \<Rightarrow> js_error + ProjectState option" where
  "handleReorderFolder folderId dir prev =
     (case prev of
        None \<Rightarrow> Inr None
      | Some p \<Rightarrow>
          (let currentFolders = folders p in
           case find (\<lambda>f. folder_id f = folderId) currentFolders of
             None \<Rightarrow> Inr prev
           | Some folderToMove \<Rightarrow>
               (let siblings = sort_key folder_sortOrder
                                 (filter (\<lambda>f. folder_parentId f = folder_parentId folderToMove) currentFolders);
                    currentIndex = findIndex (\<lambda>f. folder_id f = folderId) siblings
                in if dir = Up \<and> currentIndex > 0
                     then reorderFolder_swap p folderToMove (at_index siblings (currentIndex - 1))
                   else if dir = Down \<and> currentIndex < int (length siblings) - 1
                     then reorderFolder_swap p folderToMove (at_index siblings (currentIndex + 1))
                   else Inr prev)))"

subsection \<open>Article updaters\<close>

definition handleUpdateArticleTitle :: "string \<Rightarrow> string \<Rightarrow> ProjectState option \<Rightarrow> ProjectState option" where
  "handleUpdateArticleTitle articleId newTitle prev =
     (case prev of
        None \<Rightarrow> None
      | Some p \<Rightarrow>
          Some (p\<lparr>articles :=
                    map (\<lambda>a. if article_id a = articleId then a\<lparr>article_title := newTitle\<rparr> else a)
                        (articles p)\<rparr>))"

text \<open>
  The comparator of \<^verbatim>\<open>handleReorderArticle\<close> is
  \<^verbatim>\<open>(a.sortOrder ?? 0) - (b.sortOrder ?? 0)\<close>; on a number \<^verbatim>\<open>?? 0\<close> changes nothing.
\<close>

definition handleReorderArticle :: "string \<Rightarrow> direction \<Rightarrow> ProjectState option \<Rightarrow> ProjectState option" where
  "handleReorderArticle articleId dir prev =
     (case prev of
        None \<Rightarrow> None
      | Some p \<Rightarrow>
          (let currentArticles = articles p in
           case find (\<lambda>a. article_id a = articleId) currentArticles of
             None \<Rightarrow> prev
           | Some articleToMove \<Rightarrow>
               (let siblings = sort_key article_sortOrder
                                 (filter (\<lambda>a. article_parentId a = article_parentId articleToMove
                                              \<and> article_folderId a = article_folderId articleToMove)
                                         currentArticles);
                    currentIndex = findIndex (\<lambda>a. article_id a = articleId) siblings
                in if currentIndex = -1 then prev
                   else
                     (let targetSibling =
                            (if dir = Up \<and> currentIndex > 0 then at_index siblings (currentIndex - 1)
                             else if dir = Down \<and> currentIndex < int (length siblings) - 1
                               then at_index siblings (currentIndex + 1)
                             else None)
                      in case targetSibling of
                           None \<Rightarrow> prev
                         | Some target \<Rightarrow>
                             Some (p\<lparr>articles :=
                                map (\<lambda>a. if article_id a = article_id articleToMove
                                             then a\<lparr>article_sortOrder := article_sortOrder target\<rparr>
                                           else if article_id a = article_id target
                                             then a\<lparr>article_sortOrder := article_sortOrder articleToMove\<rparr>
                                           else a)
                                    currentArticles\<rparr>)))))"

section \<open>Blob store (utils/db.ts)\<close>

text \<open>
  The object store \<^verbatim>\<open>images\<close> is keyed by \<^verbatim>\<open>id\<close> and holds one \<^verbatim>\<open>dataUrl\<close> per key:
  a map from ids to payloads. The four writing functions are modelled by what they do to
  the store's contents when the request succeeds; the backend's transactions and its
  failures are outside the model.
\<close>

type_synonym blob_store = "string \<rightharpoonup> string"

definition putImage :: "string \<Rightarrow> string \<Rightarrow> blob_store \<Rightarrow> blob_store" where
  "putImage imageId dataUrl store = store(imageId \<mapsto> dataUrl)"

definition deleteImage :: "string \<Rightarrow> blob_store \<Rightarrow> blob_store" where
  "deleteImage imageId store = store(imageId := None)"

definition clearImages :: "blob_store \<Rightarrow> blob_store" where
  "clearImages store = Map.empty"

definition putAllImages :: "ImageData list \<Rightarrow> blob_store \<Rightarrow> blob_store" where
  "putAllImages images store =
     (if length images = 0 then store
      else foldl (\<lambda>st image. st(data_id image \<mapsto> data_dataUrl image)) store images)"

text \<open>
  A handler's calls into \<^verbatim>\<open>db\<close> are recorded in the order they are issued;
  \<open>db_run\<close> replays a record of calls on the contents of the store.
\<close>

datatype db_call =
    PutImage string string
  | DeleteImage string
  | ClearImages
  | PutAllImages "ImageData list"

fun db_apply :: "db_call \<Rightarrow> blob_store \<Rightarrow> blob_store" where
  "db_apply (PutImage imageId dataUrl) store = putImage imageId dataUrl store"
| "db_apply (DeleteImage imageId) store = deleteImage imageId store"
| "db_apply ClearImages store = clearImages store"
| "db_apply (PutAllImages images) store = putAllImages images store"

definition db_run :: "db_call list \<Rightarrow> blob_store \<Rightarrow> blob_store" where
  "db_run calls store = foldl (\<lambda>st c. db_apply c st) store calls"

section \<open>Component state and handlers with side effects (App.tsx)\<close>

text \<open>
  The state hooks of \<^verbatim>\<open>App\<close> that the handlers below write, the calls they issue to
  the blob store, the callbacks they hand to \<^verbatim>\<open>setTimeout\<close>, and the messages they
  show with \<^verbatim>\<open>alert\<close>.
\<close>

datatype timeout = ExpandFolder string | ClearNewlyCreatedFolderId

datatype alert = BackupInvalid | BackupCorrupted

record App =
  projectState :: "ProjectState option"
  selectedFolderId :: "string option"
  newlyCreatedFolderId :: "string option"
  editingArticle :: "Article option"
  selectedArticleId :: "string option"
  dbCalls :: "db_call list"
  timeouts :: "timeout list"
  alerts :: "alert list"

subsection \<open>Creating folders and articles\<close>

text \<open>
  \<^verbatim>\<open>crypto.randomUUID()\<close> and the constant \<^verbatim>\<open>DEFAULT_FOLDER_COLOR\<close> (from
  \<^verbatim>\<open>constants.ts\<close>) are parameters: \<open>uuid\<close> and \<open>defaultColor\<close>.
\<close>

definition createFolder :: "string option \<Rightarrow> string \<Rightarrow> string \<Rightarrow> App \<Rightarrow> App" where
  "createFolder parentId uuid defaultColor app =
     (case projectState app of
        None \<Rightarrow> app
      | Some prev \<Rightarrow>
          (let siblings = filter (\<lambda>f. folder_parentId f = parentId) (folders prev);
               maxSortOrder = foldl (\<lambda>mx f. max mx (folder_sortOrder f)) (-1) siblings;
               newFolder = \<lparr>folder_id = uuid,
                            folder_name = (if truthy parentId then ''Nova Subpasta'' else ''Nova Pasta''),
                            folder_color = defaultColor,
                            folder_parentId = parentId,
                            folder_sortOrder = number_plus_one maxSortOrder\<rparr>
           in app\<lparr>projectState := Some (prev\<lparr>folders := folders prev @ [newFolder]\<rparr>),
                  selectedFolderId := Some (folder_id newFolder),
                  newlyCreatedFolderId := Some (folder_id newFolder),
                  timeouts := timeouts app
                     @ (case parentId of
                          None \<Rightarrow> []
                        | Some pid \<Rightarrow> if pid \<noteq> [] \<and> pid \<notin> set (expandedFolderIds prev)
                                      then [ExpandFolder pid] else [])
                     @ [ClearNewlyCreatedFolderId]\<rparr>))"

fun runTimeout :: "timeout \<Rightarrow> App \<Rightarrow> App" where
  "runTimeout (ExpandFolder parentId) app =
     app\<lparr>projectState :=
           (case projectState app of
              None \<Rightarrow> None
            | Some p \<Rightarrow> Some (p\<lparr>expandedFolderIds := expandedFolderIds p @ [parentId]\<rparr>))\<rparr>"
| "runTimeout ClearNewlyCreatedFolderId app = app\<lparr>newlyCreatedFolderId := None\<rparr>"

text \<open>
  In \<^verbatim>\<open>handleCreateArticle\<close> the reducer is \<^verbatim>\<open>Math.max(max, a.sortOrder || 0)\<close>; on a
  number \<^verbatim>\<open>|| 0\<close> changes nothing (it maps 0 to 0).
\<close>

definition handleCreateArticle :: "string \<Rightarrow> App \<Rightarrow> App" where
  "handleCreateArticle uuid app =
     (case selectedFolderId app of
        None \<Rightarrow> app
      | Some folderId \<Rightarrow>
          if folderId = [] then app
          else
            (case projectState app of
               None \<Rightarrow> app
             | Some prev \<Rightarrow>
                 (let siblings = filter (\<lambda>a. article_folderId a = folderId \<and> article_parentId a = None)
                                        (articles prev);
                      maxSortOrder = foldl (\<lambda>mx a. max mx (article_sortOrder a)) (-1) siblings;
                      newArticle = \<lparr>article_id = uuid,
                                    article_title = ''Novo Artigo'',
                                    article_folderId = folderId,
                                    article_sortOrder = number_plus_one maxSortOrder,
                                    article_sections = [],
                                    article_relatedArticleIds = [],
                                    article_parentId = None\<rparr>
                  in app\<lparr>projectState := Some (prev\<lparr>articles := articles prev @ [newArticle]\<rparr>),
                         editingArticle := Some newArticle\<rparr>)))"

definition handleCreateSubArticle :: "string \<Rightarrow> string \<Rightarrow> App \<Rightarrow> App" where
  "handleCreateSubArticle parentId uuid app =
     (case projectState app of
        None \<Rightarrow> app
      | Some prev \<Rightarrow>
          (case find (\<lambda>a. article_id a = parentId) (articles prev) of
             None \<Rightarrow> app
           | Some parentArticle \<Rightarrow>
               (let siblings = filter (\<lambda>a. article_parentId a = Some parentId) (articles prev);
                    maxSortOrder = foldl (\<lambda>mx a. max mx (article_sortOrder a)) (-1) siblings;
                    newArticle = \<lparr>article_id = uuid,
                                  article_title = ''Novo Subartigo'',
                                  article_folderId = article_folderId parentArticle,
                                  article_sortOrder = number_plus_one maxSortOrder,
                                  article_sections = [],
                                  article_relatedArticleIds = [],
                                  article_parentId = Some parentId\<rparr>;
                    newExpandedArticleIds =
                      (if parentId \<in> set (expandedArticleIds prev) then expandedArticleIds prev
                       else expandedArticleIds prev @ [parentId])
                in app\<lparr>projectState := Some (prev\<lparr>articles := articles prev @ [newArticle],
                                                    expandedArticleIds := newExpandedArticleIds\<rparr>),
                       editingArticle := Some newArticle\<rparr>)))"

definition handleSaveArticle :: "Article \<Rightarrow> App \<Rightarrow> App" where
  "handleSaveArticle updatedArticle app =
     app\<lparr>projectState :=
           (case projectState app of
              None \<Rightarrow> None
            | Some prev \<Rightarrow>
                Some (prev\<lparr>articles :=
                        map (\<lambda>a. if article_id a = article_id updatedArticle then updatedArticle else a)
                            (articles prev)\<rparr>)),
         editingArticle := None\<rparr>"

subsection \<open>Cascading deletes\<close>

text \<open>The \<^verbatim>\<open>db.deleteImage\<close> calls issued for a list of articles that are being deleted.\<close>

fun section_deleteImages :: "Section \<Rightarrow> db_call list" where
  "section_deleteImages (FieldsSection _ _ _) = []"
| "section_deleteImages (ImagesSection _ _ images) = map (\<lambda>image. DeleteImage (image_id image)) images"

definition articles_deleteImages :: "Article list \<Rightarrow> db_call list" where
  "articles_deleteImages articlesToDelete =
     concat (map (\<lambda>article. concat (map section_deleteImages (article_sections article))) articlesToDelete)"

text \<open>
  The breadth-first \<^verbatim>\<open>while (queue.length > 0)\<close> loop of \<^verbatim>\<open>handleDeleteFolder\<close>. It has
  no test for ids it has seen before, so it need not end; \<open>None\<close> is the run that does not
  return.
\<close>

partial_function (option) deleteFolder_loop :: "Folder list \<Rightarrow> string list \<Rightarrow> string list \<Rightarrow> string list option" where
  "deleteFolder_loop allFolders queue idsToDelete =
     (case queue of
        [] \<Rightarrow> Some idsToDelete
      | currentId # rest \<Rightarrow>
          (let children = filter (\<lambda>f. folder_parentId f = Some currentId) allFolders
           in deleteFolder_loop allFolders
                (rest @ map folder_id children)
                (foldl Set_add idsToDelete (map folder_id children))))"

definition handleDeleteFolder :: "string \<Rightarrow> App \<Rightarrow> App option" where
  "handleDeleteFolder folderId app =
     (case projectState app of
        None \<Rightarrow> Some app
      | Some prev \<Rightarrow>
          (case find (\<lambda>f. folder_id f = folderId) (folders prev) of
             None \<Rightarrow> Some app
           | Some folderToDelete \<Rightarrow>
               (case deleteFolder_loop (folders prev) [folderId] (Set_new [folderId]) of
                  None \<Rightarrow> None
                | Some idsToDelete \<Rightarrow>
                    (let newFolders = filter (\<lambda>f. \<not> Set_has idsToDelete (folder_id f)) (folders prev);
                         articlesToDelete = filter (\<lambda>a. Set_has idsToDelete (article_folderId a)) (articles prev);
                         newArticles = filter (\<lambda>a. \<not> Set_has idsToDelete (article_folderId a)) (articles prev);
                         selected =
                           (if truthy (selectedFolderId app)
                               \<and> (case selectedFolderId app of None \<Rightarrow> False | Some sel \<Rightarrow> Set_has idsToDelete sel)
                            then
                              (if truthy (folder_parentId folderToDelete)
                                  \<and> (case folder_parentId folderToDelete of
                                        None \<Rightarrow> False | Some pid \<Rightarrow> \<not> Set_has idsToDelete pid)
                               then folder_parentId folderToDelete
                               else if length newFolders > 0 then Some (folder_id (hd newFolders))
                               else None)
                            else selectedFolderId app)
                     in Some (app\<lparr>projectState := Some (prev\<lparr>folders := newFolders, articles := newArticles\<rparr>),
                                  selectedFolderId := selected,
                                  dbCalls := dbCalls app @ articles_deleteImages articlesToDelete\<rparr>)))))"

text \<open>The loop of \<^verbatim>\<open>handleDeleteArticle\<close>, which also collects the articles themselves.\<close>

partial_function (option) deleteArticle_loop ::
    "Article list \<Rightarrow> string list \<Rightarrow> string list \<Rightarrow> Article list \<Rightarrow> (string list \<times> Article list) option" where
  "deleteArticle_loop allArticles queue idsToDelete articlesToDelete =
     (case queue of
        [] \<Rightarrow> Some (idsToDelete, articlesToDelete)
      | currentId # rest \<Rightarrow>
          (let children = filter (\<lambda>a. article_parentId a = Some currentId) allArticles
           in deleteArticle_loop allArticles
                (rest @ map article_id children)
                (foldl Set_add idsToDelete (map article_id children))
                (articlesToDelete @ children)))"

definition handleDeleteArticle :: "string \<Rightarrow> App \<Rightarrow> App option" where
  "handleDeleteArticle articleId app =
     (case projectState app of
        None \<Rightarrow> Some app
      | Some prev \<Rightarrow>
          (let initialArticle = find (\<lambda>a. article_id a = articleId) (articles prev)
           in case deleteArticle_loop (articles prev) [articleId] (Set_new [articleId])
                     (case initialArticle of None \<Rightarrow> [] | Some a \<Rightarrow> [a]) of
                None \<Rightarrow> None
              | Some (idsToDelete, articlesToDelete) \<Rightarrow>
                  (let newArticles = filter (\<lambda>a. \<not> Set_has idsToDelete (article_id a)) (articles prev)
                   in Some (app\<lparr>projectState := Some (prev\<lparr>articles := newArticles\<rparr>),
                                selectedArticleId :=
                                  (if truthy (selectedArticleId app)
                                      \<and> (case selectedArticleId app of
                                            None \<Rightarrow> False | Some sel \<Rightarrow> Set_has idsToDelete sel)
                                   then None else selectedArticleId app),
                                dbCalls := dbCalls app @ articles_deleteImages articlesToDelete\<rparr>))))"

subsection \<open>Migration of inline images\<close>

text \<open>
  \<^verbatim>\<open>migrateProjectState\<close>, one function per loop, innermost first. Each returns what
  it pushed, the \<^verbatim>\<open>db.putImage\<close> calls it awaited, in order, and (from the section
  level up) whether it set \<^verbatim>\<open>migrationNeeded\<close>. The test \<^verbatim>\<open>if (image.dataUrl)\<close> is
  truthiness; \<^verbatim>\<open>'dataUrl' in section.images[0]\<close> is presence of the key.
\<close>

fun migrate_images :: "ImageField list \<Rightarrow> ImageField list \<times> db_call list" where
  "migrate_images [] = ([], [])"
| "migrate_images (img # rest) =
     (let (newImages, calls) = migrate_images rest
      in case image_dataUrl img of
           None \<Rightarrow> (img # newImages, calls)
         | Some dataUrl \<Rightarrow>
             if dataUrl \<noteq> []
             then (img\<lparr>image_dataUrl := None\<rparr> # newImages, PutImage (image_id img) dataUrl # calls)
             else (img # newImages, calls))"

fun migrate_section :: "Section \<Rightarrow> Section \<times> db_call list \<times> bool" where
  "migrate_section (FieldsSection sid title fieldList) = (FieldsSection sid title fieldList, [], False)"
| "migrate_section (ImagesSection sid title images) =
     (if length images > 0 \<and> image_dataUrl (hd images) \<noteq> None
      then (let (newImages, calls) = migrate_images images
            in (ImagesSection sid title newImages, calls, True))
      else (ImagesSection sid title images, [], False))"

fun migrate_sections :: "Section list \<Rightarrow> Section list \<times> db_call list \<times> bool" where
  "migrate_sections [] = ([], [], False)"
| "migrate_sections (sec # rest) =
     (let (sec', calls, needed) = migrate_section sec;
          (rest', calls', needed') = migrate_sections rest
      in (sec' # rest', calls @ calls', needed \<or> needed'))"

fun migrate_articles :: "Article list \<Rightarrow> Article list \<times> db_call list \<times> bool" where
  "migrate_articles [] = ([], [], False)"
| "migrate_articles (article # rest) =
     (let (migratedSections, calls, needed) = migrate_sections (article_sections article);
          (rest', calls', needed') = migrate_articles rest
      in (article\<lparr>article_sections := migratedSections\<rparr> # rest', calls @ calls', needed \<or> needed'))"

definition migrateProjectState :: "ProjectState \<Rightarrow> ProjectState \<times> db_call list" where
  "migrateProjectState project =
     (let (migratedArticles, calls, migrationNeeded) = migrate_articles (articles project)
      in if migrationNeeded then (project\<lparr>articles := migratedArticles\<rparr>, calls)
         else (project, calls))"

subsection \<open>Loading a backup archive\<close>

text \<open>
  What \<^verbatim>\<open>JSON.parse\<close> can hand to \<^verbatim>\<open>handleLoadBackup\<close>. A key that may be missing
  has an \<open>option\<close> type with \<open>None\<close> for the missing key; an article's \<^verbatim>\<open>parentId\<close>
  can be missing (\<open>None\<close>), \<^verbatim>\<open>null\<close> (\<open>Some None\<close>) or an id. A section object
  without a \<^verbatim>\<open>type\<close> key is a field group of the oldest format.
\<close>

datatype RawSection =
    Tagged Section
  | Untagged string string "Field list"

record RawArticle =
  raw_id :: string
  raw_title :: string
  raw_folderId :: string
  raw_sortOrder :: int
  raw_sections :: "RawSection list option"
  raw_relatedArticleIds :: "string list"
  raw_parentId :: "string option option"

record RawProject =
  raw_folders :: "Folder list option"
  raw_articles :: "RawArticle list option"
  raw_expandedFolderIds :: "string list option"
  raw_expandedArticleIds :: "string list option"

text \<open>
  The top-level object of the file: its \<^verbatim>\<open>projectState\<close> key, its \<^verbatim>\<open>images\<close> key
  (\<open>None\<close> unless it is an array), and the object itself read as a project, which is how
  the old format is taken.
\<close>

record LoadedData =
  ld_projectState :: "RawProject option"
  ld_images :: "ImageData list option"
  ld_self :: RawProject

text \<open>
  The text of the file either does not parse, or is \<^verbatim>\<open>null\<close> (reading a key of it
  throws), or is an object.
\<close>

datatype parsed = SyntaxError | JsonNull | JsonObject LoadedData

fun repair_section :: "RawSection \<Rightarrow> Section" where
  "repair_section (Tagged sec) = sec"
| "repair_section (Untagged sid title fieldList) = FieldsSection sid title fieldList"

definition repair_article :: "RawArticle \<Rightarrow> Article" where
  "repair_article a =
     \<lparr>article_id = raw_id a,
      article_title = raw_title a,
      article_folderId = raw_folderId a,
      article_sortOrder = raw_sortOrder a,
      article_sections = map repair_section (case raw_sections a of None \<Rightarrow> [] | Some secs \<Rightarrow> secs),
      article_relatedArticleIds = raw_relatedArticleIds a,
      article_parentId = (case raw_parentId a of None \<Rightarrow> None | Some pid \<Rightarrow> pid)\<rparr>"

definition handleLoadBackup :: "parsed \<Rightarrow> App \<Rightarrow> App" where
  "handleLoadBackup file app =
     (case file of
        SyntaxError \<Rightarrow> app\<lparr>alerts := alerts app @ [BackupCorrupted]\<rparr>
      | JsonNull \<Rightarrow> app\<lparr>alerts := alerts app @ [BackupCorrupted]\<rparr>
      | JsonObject loadedData \<Rightarrow>
          (let (loadedProject, app1) =
                 (case (ld_projectState loadedData, ld_images loadedData) of
                    (Some ps, Some images) \<Rightarrow>
                      (ps, app\<lparr>dbCalls := dbCalls app @ [ClearImages, PutAllImages images]\<rparr>)
                  | _ \<Rightarrow> (ld_self loadedData, app))
           in case (raw_folders loadedProject, raw_articles loadedProject) of
                (Some fs, Some arts) \<Rightarrow>
                  (let repaired =
                         \<lparr>folders = fs,
                          articles = map repair_article arts,
                          expandedFolderIds =
                            (case raw_expandedFolderIds loadedProject of None \<Rightarrow> [] | Some ids \<Rightarrow> ids),
                          expandedArticleIds =
                            (case raw_expandedArticleIds loadedProject of None \<Rightarrow> [] | Some ids \<Rightarrow> ids)\<rparr>;
                       (projectAfterMigration, calls) = migrateProjectState repaired
                   in app1\<lparr>projectState := Some projectAfterMigration,
                           selectedFolderId := None,
                           selectedArticleId := None,
                           dbCalls := dbCalls app1 @ calls\<rparr>)
              | _ \<Rightarrow> app1\<lparr>alerts := alerts app1 @ [BackupInvalid]\<rparr>))"

section \<open>Notions of the specification\<close>

text \<open>
  The parent graph of the folders (section 3 of the specification): one pair of child id
  and parent id for every folder that has a parent. The subtree rooted at a folder id is
  that id with all its transitive descendants in the graph.
\<close>

definition folderEdges :: "Folder list \<Rightarrow> (string \<times> string) set" where
  "folderEdges fs = {(folder_id f, pid) | f pid. f \<in> set fs \<and> folder_parentId f = Some pid}"

definition subtreeIds :: "Folder list \<Rightarrow> string \<Rightarrow> string set" where
  "subtreeIds fs root = {i. (i, root) \<in> (folderEdges fs)\<^sup>*}"

section \<open>Example states\<close>

text \<open>Concrete projects on which the theorems below are instantiated.\<close>

abbreviation legacyGallery :: ProjectState where
  "legacyGallery \<equiv>
     \<lparr>folders = [],
      articles =
        [\<lparr>article_id = ''a1'', article_title = ''Atlas'', article_folderId = ''f1'',
          article_sortOrder = 0,
          article_sections =
            [ImagesSection ''s1'' ''Maps''
               [\<lparr>image_id = ''i1'', image_caption = ''north'', image_dataUrl = Some ''data:1''\<rparr>,
                \<lparr>image_id = ''i2'', image_caption = ''south'', image_dataUrl = None\<rparr>],
             ImagesSection ''s2'' ''Plans''
               [\<lparr>image_id = ''i3'', image_caption = ''east'', image_dataUrl = None\<rparr>,
                \<lparr>image_id = ''i4'', image_caption = ''west'', image_dataUrl = Some ''data:4''\<rparr>]],
          article_relatedArticleIds = [], article_parentId = None\<rparr>],
      expandedFolderIds = [], expandedArticleIds = []\<rparr>"

abbreviation welcomeScreen :: App where
  "welcomeScreen \<equiv>
     \<lparr>projectState = None, selectedFolderId = None, newlyCreatedFolderId = None,
      editingArticle = None, selectedArticleId = None, dbCalls = [], timeouts = [], alerts = []\<rparr>"

abbreviation archiveWithoutArticles :: parsed where
  "archiveWithoutArticles \<equiv>
     JsonObject
       \<lparr>ld_projectState = Some \<lparr>raw_folders = Some [], raw_articles = None,
                                 raw_expandedFolderIds = None, raw_expandedArticleIds = None\<rparr>,
        ld_images = Some [],
        ld_self = \<lparr>raw_folders = None, raw_articles = None,
                   raw_expandedFolderIds = None, raw_expandedArticleIds = None\<rparr>\<rparr>"

abbreviation negativeOrders :: App where
  "negativeOrders \<equiv>
     \<lparr>projectState = Some
        \<lparr>folders = [\<lparr>folder_id = ''f1'', folder_name = ''Notes'', folder_color = ''#888888'',
                      folder_parentId = None, folder_sortOrder = -5\<rparr>],
         articles = [], expandedFolderIds = [], expandedArticleIds = []\<rparr>,
      selectedFolderId = Some ''f1'', newlyCreatedFolderId = None,
      editingArticle = None, selectedArticleId = None, dbCalls = [], timeouts = [], alerts = []\<rparr>"

abbreviation unsafeOrders :: App where
  "unsafeOrders \<equiv>
     \<lparr>projectState = Some
        \<lparr>folders = [\<lparr>folder_id = ''f1'', folder_name = ''Notes'', folder_color = ''#888888'',
                      folder_parentId = None, folder_sortOrder = 9007199254740992\<rparr>],
         articles = [], expandedFolderIds = [], expandedArticleIds = []\<rparr>,
      selectedFolderId = Some ''f1'', newlyCreatedFolderId = None,
      editingArticle = None, selectedArticleId = None, dbCalls = [], timeouts = [], alerts = []\<rparr>"

abbreviation atlasProject :: ProjectState where
  "atlasProject \<equiv>
     \<lparr>folders =
        [\<lparr>folder_id = ''f1'', folder_name = ''World'', folder_color = ''#888888'',
          folder_parentId = None, folder_sortOrder = 0\<rparr>,
         \<lparr>folder_id = ''f2'', folder_name = ''Drafts'', folder_color = ''#888888'',
          folder_parentId = None, folder_sortOrder = 1\<rparr>,
         \<lparr>folder_id = ''f3'', folder_name = ''Places'', folder_color = ''#888888'',
          folder_parentId = Some ''f1'', folder_sortOrder = 0\<rparr>,
         \<lparr>folder_id = ''f4'', folder_name = ''Cities'', folder_color = ''#888888'',
          folder_parentId = Some ''f3'', folder_sortOrder = 0\<rparr>],
      articles =
        [\<lparr>article_id = ''a1'', article_title = ''Harbour'', article_folderId = ''f3'',
          article_sortOrder = 0,
          article_sections =
            [ImagesSection ''s1'' ''Maps''
               [\<lparr>image_id = ''i1'', image_caption = ''north'', image_dataUrl = None\<rparr>,
                \<lparr>image_id = ''i2'', image_caption = ''south'', image_dataUrl = None\<rparr>]],
          article_relatedArticleIds = [], article_parentId = None\<rparr>,
         \<lparr>article_id = ''a2'', article_title = ''Quay'', article_folderId = ''f3'',
          article_sortOrder = 0, article_sections = [],
          article_relatedArticleIds = [], article_parentId = Some ''a1''\<rparr>,
         \<lparr>article_id = ''a3'', article_title = ''Ideas'', article_folderId = ''f2'',
          article_sortOrder = 0,
          article_sections =
            [ImagesSection ''s2'' ''Sketches''
               [\<lparr>image_id = ''i3'', image_caption = ''plan'', image_dataUrl = None\<rparr>]],
          article_relatedArticleIds = [], article_parentId = None\<rparr>,
         \<lparr>article_id = ''a4'', article_title = ''Market'', article_folderId = ''f3'',
          article_sortOrder = 1, article_sections = [],
          article_relatedArticleIds = [], article_parentId = None\<rparr>],
      expandedFolderIds = [''f1''], expandedArticleIds = []\<rparr>"

abbreviation atlasApp :: App where
  "atlasApp \<equiv>
     \<lparr>projectState = Some atlasProject,
      selectedFolderId = Some ''f3'', newlyCreatedFolderId = None,
      editingArticle = None, selectedArticleId = None, dbCalls = [], timeouts = [], alerts = []\<rparr>"

abbreviation nestedFirst :: App where
  "nestedFirst \<equiv>
     \<lparr>projectState = Some
        \<lparr>folders =
           [\<lparr>folder_id = ''f2'', folder_name = ''Drafts'', folder_color = ''#888888'',
             folder_parentId = None, folder_sortOrder = 0\<rparr>,
            \<lparr>folder_id = ''f3'', folder_name = ''Places'', folder_color = ''#888888'',
             folder_parentId = Some ''f1'', folder_sortOrder = 0\<rparr>,
            \<lparr>folder_id = ''f1'', folder_name = ''World'', folder_color = ''#888888'',
             folder_parentId = None, folder_sortOrder = 1\<rparr>],
         articles = [], expandedFolderIds = [], expandedArticleIds = []\<rparr>,
      selectedFolderId = Some ''f2'', newlyCreatedFolderId = None,
      editingArticle = None, selectedArticleId = None, dbCalls = [], timeouts = [], alerts = []\<rparr>"

abbreviation selfParent :: App where
  "selfParent \<equiv>
     \<lparr>projectState = Some
        \<lparr>folders =
           [\<lparr>folder_id = ''f1'', folder_name = ''Loop'', folder_color = ''#888888'',
             folder_parentId = Some ''f1'', folder_sortOrder = 0\<rparr>],
         articles = [], expandedFolderIds = [], expandedArticleIds = []\<rparr>,
      selectedFolderId = None, newlyCreatedFolderId = None,
      editingArticle = None, selectedArticleId = None, dbCalls = [], timeouts = [], alerts = []\<rparr>"

abbreviation orphanArticle :: App where
  "orphanArticle \<equiv>
     \<lparr>projectState = Some
        \<lparr>folders =
           [\<lparr>folder_id = ''f1'', folder_name = ''World'', folder_color = ''#888888'',
             folder_parentId = None, folder_sortOrder = 0\<rparr>],
         articles =
           [\<lparr>article_id = ''a2'', article_title = ''Quay'', article_folderId = ''f1'',
             article_sortOrder = 0,
             article_sections =
               [ImagesSection ''s1'' ''Maps''
                  [\<lparr>image_id = ''i1'', image_caption = ''north'', image_dataUrl = None\<rparr>]],
             article_relatedArticleIds = [], article_parentId = Some ''a9''\<rparr>],
         expandedFolderIds = [], expandedArticleIds = []\<rparr>,
      selectedFolderId = Some ''f1'', newlyCreatedFolderId = None,
      editingArticle = None, selectedArticleId = None, dbCalls = [], timeouts = [], alerts = []\<rparr>"

abbreviation tiedOrders :: ProjectState where
  "tiedOrders \<equiv>
     \<lparr>folders =
        [\<lparr>folder_id = ''f1'', folder_name = ''World'', folder_color = ''#888888'',
          folder_parentId = None, folder_sortOrder = 1\<rparr>,
         \<lparr>folder_id = ''f2'', folder_name = ''Drafts'', folder_color = ''#888888'',
          folder_parentId = None, folder_sortOrder = 1\<rparr>,
         \<lparr>folder_id = ''f3'', folder_name = ''Places'', folder_color = ''#888888'',
          folder_parentId = None, folder_sortOrder = 0\<rparr>],
      articles = [], expandedFolderIds = [], expandedArticleIds = []\<rparr>"

section \<open>Properties of the list and Set primitives\<close>

lemma Set_add_set: "set (Set_add s x) = insert x (set s)"
  by (auto simp: Set_add_def Set_has_def)

lemma Set_add_distinct: "distinct s \<Longrightarrow> distinct (Set_add s x)"
  by (simp add: Set_add_def Set_has_def)

lemma foldl_Set_add_set: "set (foldl Set_add acc xs) = set acc \<union> set xs"
  by (induction xs arbitrary: acc) (auto simp: Set_add_set)

lemma foldl_Set_add_distinct: "distinct acc \<Longrightarrow> distinct (foldl Set_add acc xs)"
  by (induction xs arbitrary: acc) (auto simp: Set_add_distinct)

lemma Set_new_set: "set (Set_new xs) = set xs"
  by (simp add: Set_new_def foldl_Set_add_set)

lemma Set_new_distinct: "distinct (Set_new xs)"
  by (simp add: Set_new_def foldl_Set_add_distinct)

lemma in_concat_map: "x \<in> set (f a) \<Longrightarrow> a \<in> set xs \<Longrightarrow> x \<in> set (concat (map f xs))"
  by auto

section \<open>Expansion toggles\<close>

lemma toggle_list_props:
  fixes old :: "'a list" and i :: 'a
  defines "r \<equiv> (if Set_has (Set_new old) i then Set_delete (Set_new old) i else Set_add (Set_new old) i)"
  shows "distinct r"
    and "(i \<in> set r) = (i \<notin> set old)"
    and "set r - {i} = set old - {i}"
    and "r = (if i \<in> set old then filter (\<lambda>y. y \<noteq> i) (Set_new old) else Set_new old @ [i])"
    and "count_list r i = (if i \<in> set old then 0 else 1)"
  using Set_new_set[of old] Set_new_distinct[of old]
  by (auto simp: r_def Set_has_def Set_delete_def Set_add_def)

text \<open>
  Claim C10. After \<^verbatim>\<open>handleToggleFolderExpansion\<close> on a project, nothing but
  \<open>expandedFolderIds\<close> has changed; the new list has no duplicates; the toggled id is
  in it exactly if it was not in the old one; every other id is in it exactly if it was in
  the old one; the toggled id occurs once, at the end, if it was absent, and not at all if
  it was present. The same holds for \<^verbatim>\<open>handleToggleArticleExpansion\<close> and
  \<open>expandedArticleIds\<close>.
\<close>

theorem C10_toggle_expansion:
  "(\<exists>p'. handleToggleFolderExpansion i (Some p) = Some p'
        \<and> p' = p\<lparr>expandedFolderIds := expandedFolderIds p'\<rparr>
        \<and> distinct (expandedFolderIds p')
        \<and> (i \<in> set (expandedFolderIds p')) = (i \<notin> set (expandedFolderIds p))
        \<and> set (expandedFolderIds p') - {i} = set (expandedFolderIds p) - {i}
        \<and> count_list (expandedFolderIds p') i = (if i \<in> set (expandedFolderIds p) then 0 else 1)
        \<and> expandedFolderIds p' =
            (if i \<in> set (expandedFolderIds p) then filter (\<lambda>y. y \<noteq> i) (Set_new (expandedFolderIds p))
             else Set_new (expandedFolderIds p) @ [i]))
   \<and> (\<exists>p'. handleToggleArticleExpansion i (Some p) = Some p'
        \<and> p' = p\<lparr>expandedArticleIds := expandedArticleIds p'\<rparr>
        \<and> distinct (expandedArticleIds p')
        \<and> (i \<in> set (expandedArticleIds p')) = (i \<notin> set (expandedArticleIds p))
        \<and> set (expandedArticleIds p') - {i} = set (expandedArticleIds p) - {i}
        \<and> count_list (expandedArticleIds p') i = (if i \<in> set (expandedArticleIds p) then 0 else 1)
        \<and> expandedArticleIds p' =
            (if i \<in> set (expandedArticleIds p) then filter (\<lambda>y. y \<noteq> i) (Set_new (expandedArticleIds p))
             else Set_new (expandedArticleIds p) @ [i]))"
proof (intro conjI)
  let ?r = "if Set_has (Set_new (expandedFolderIds p)) i
            then Set_delete (Set_new (expandedFolderIds p)) i
            else Set_add (Set_new (expandedFolderIds p)) i"
  note P = toggle_list_props[where old = "expandedFolderIds p" and i = i]
  show "\<exists>p'. handleToggleFolderExpansion i (Some p) = Some p'
        \<and> p' = p\<lparr>expandedFolderIds := expandedFolderIds p'\<rparr>
        \<and> distinct (expandedFolderIds p')
        \<and> (i \<in> set (expandedFolderIds p')) = (i \<notin> set (expandedFolderIds p))
        \<and> set (expandedFolderIds p') - {i} = set (expandedFolderIds p) - {i}
        \<and> count_list (expandedFolderIds p') i = (if i \<in> set (expandedFolderIds p) then 0 else 1)
        \<and> expandedFolderIds p' =
            (if i \<in> set (expandedFolderIds p) then filter (\<lambda>y. y \<noteq> i) (Set_new (expandedFolderIds p))
             else Set_new (expandedFolderIds p) @ [i])"
    apply (rule exI[of _ "p\<lparr>expandedFolderIds := ?r\<rparr>"])
    using P by (simp add: handleToggleFolderExpansion_def Let_def)
next
  let ?r = "if Set_has (Set_new (expandedArticleIds p)) i
            then Set_delete (Set_new (expandedArticleIds p)) i
            else Set_add (Set_new (expandedArticleIds p)) i"
  note P = toggle_list_props[where old = "expandedArticleIds p" and i = i]
  show "\<exists>p'. handleToggleArticleExpansion i (Some p) = Some p'
        \<and> p' = p\<lparr>expandedArticleIds := expandedArticleIds p'\<rparr>
        \<and> distinct (expandedArticleIds p')
        \<and> (i \<in> set (expandedArticleIds p')) = (i \<notin> set (expandedArticleIds p))
        \<and> set (expandedArticleIds p') - {i} = set (expandedArticleIds p) - {i}
        \<and> count_list (expandedArticleIds p') i = (if i \<in> set (expandedArticleIds p) then 0 else 1)
        \<and> expandedArticleIds p' =
            (if i \<in> set (expandedArticleIds p) then filter (\<lambda>y. y \<noteq> i) (Set_new (expandedArticleIds p))
             else Set_new (expandedArticleIds p) @ [i])"
    apply (rule exI[of _ "p\<lparr>expandedArticleIds := ?r\<rparr>"])
    using P by (simp add: handleToggleArticleExpansion_def Let_def)
qed

section \<open>Migration of inline images\<close>

lemma migrate_images_fst:
  "fst (migrate_images imgs) =
     map (\<lambda>img. if truthy (image_dataUrl img) then img\<lparr>image_dataUrl := None\<rparr> else img) imgs"
  by (induction imgs) (auto simp: truthy_def split: prod.splits option.splits)

lemma migrate_images_snd:
  "snd (migrate_images imgs) =
     concat (map (\<lambda>img. case image_dataUrl img of
                           None \<Rightarrow> []
                         | Some d \<Rightarrow> if d \<noteq> [] then [PutImage (image_id img) d] else []) imgs)"
  by (induction imgs) (auto split: prod.splits option.splits)

lemma migrate_section_not_needed:
  "\<not> snd (snd (migrate_section sec)) \<Longrightarrow> migrate_section sec = (sec, [], False)"
  by (cases sec) (auto split: prod.splits if_splits)

lemma migrate_sections_fst: "fst (migrate_sections secs) = map (\<lambda>s. fst (migrate_section s)) secs"
  by (induction secs) (auto split: prod.splits)

lemma migrate_sections_calls:
  "fst (snd (migrate_sections secs)) = concat (map (\<lambda>s. fst (snd (migrate_section s))) secs)"
  by (induction secs) (auto split: prod.splits)

lemma migrate_sections_not_needed:
  "\<not> snd (snd (migrate_sections secs)) \<Longrightarrow> fst (migrate_sections secs) = secs"
proof (induction secs)
  case Nil
  then show ?case by simp
next
  case (Cons s secs)
  then have "\<not> snd (snd (migrate_section s))" and "\<not> snd (snd (migrate_sections secs))"
    by (auto split: prod.splits)
  with Cons.IH migrate_section_not_needed[of s] show ?case
    by (auto split: prod.splits)
qed

lemma migrate_articles_fst:
  "fst (migrate_articles arts) =
     map (\<lambda>a. a\<lparr>article_sections := map (\<lambda>s. fst (migrate_section s)) (article_sections a)\<rparr>) arts"
  by (induction arts) (auto simp: migrate_sections_fst[symmetric] split: prod.splits)

lemma migrate_articles_calls:
  "fst (snd (migrate_articles arts)) =
     concat (map (\<lambda>a. concat (map (\<lambda>s. fst (snd (migrate_section s))) (article_sections a))) arts)"
  by (induction arts) (auto simp: migrate_sections_calls[symmetric] split: prod.splits)

lemma migrate_articles_not_needed:
  "\<not> snd (snd (migrate_articles arts)) \<Longrightarrow> fst (migrate_articles arts) = arts"
proof (induction arts)
  case Nil
  then show ?case by simp
next
  case (Cons a arts)
  then have "\<not> snd (snd (migrate_sections (article_sections a)))" and "\<not> snd (snd (migrate_articles arts))"
    by (auto split: prod.splits)
  with Cons.IH migrate_sections_not_needed[of "article_sections a"] show ?case
    by (auto split: prod.splits)
qed

lemma migrateProjectState_articles:
  "articles (fst (migrateProjectState p)) =
     map (\<lambda>a. a\<lparr>article_sections := map (\<lambda>s. fst (migrate_section s)) (article_sections a)\<rparr>) (articles p)"
proof (cases "snd (snd (migrate_articles (articles p)))")
  case True
  then show ?thesis
    using migrate_articles_fst[of "articles p"]
    by (auto simp: migrateProjectState_def split: prod.splits)
next
  case False
  then show ?thesis
    using migrate_articles_not_needed[of "articles p"] migrate_articles_fst[of "articles p"]
    by (auto simp: migrateProjectState_def split: prod.splits)
qed

lemma migrateProjectState_calls:
  "snd (migrateProjectState p) =
     concat (map (\<lambda>a. concat (map (\<lambda>s. fst (snd (migrate_section s))) (article_sections a))) (articles p))"
  using migrate_articles_calls[of "articles p"]
  by (auto simp: migrateProjectState_def split: prod.splits)

lemma migrateProjectState_section:
  assumes "ai < length (articles p)" and "si < length (article_sections (articles p ! ai))"
  shows "article_sections (articles (fst (migrateProjectState p)) ! ai) ! si
           = fst (migrate_section (article_sections (articles p ! ai) ! si))"
  using assms by (simp add: migrateProjectState_articles)

text \<open>
  An image whose \<^verbatim>\<open>dataUrl\<close> key is present but empty is falsy for
  \<^verbatim>\<open>if (image.dataUrl)\<close>: it is pushed as it is, key included, and nothing is written.
\<close>

lemma migrate_images_empty_dataUrl:
  "migrate_images [\<lparr>image_id = i, image_caption = c, image_dataUrl = Some []\<rparr>]
     = ([\<lparr>image_id = i, image_caption = c, image_dataUrl = Some []\<rparr>], [])"
  by simp

lemma db_run_snoc: "db_run (cs @ [c]) store = db_apply c (db_run cs store)"
  by (simp add: db_run_def)

lemma db_run_puts:
  assumes "\<forall>c\<in>set cs. \<exists>j e. c = PutImage j e" and "PutImage i d \<in> set cs"
  shows "\<exists>d'. db_run cs store i = Some d' \<and> PutImage i d' \<in> set cs"
  using assms
proof (induction cs rule: rev_induct)
  case Nil
  then show ?case by simp
next
  case (snoc c cs)
  from snoc.prems(1) obtain j e where c: "c = PutImage j e" by auto
  show ?case
  proof (cases "j = i")
    case True
    then show ?thesis by (simp add: db_run_snoc c putImage_def)
  next
    case False
    with snoc.prems(2) c have "PutImage i d \<in> set cs" by auto
    moreover from snoc.prems(1) have "\<forall>c\<in>set cs. \<exists>j e. c = PutImage j e" by simp
    ultimately obtain d' where "db_run cs store i = Some d'" "PutImage i d' \<in> set cs"
      using snoc.IH by blast
    with False show ?thesis by (simp add: db_run_snoc c putImage_def)
  qed
qed

lemma migrate_images_puts: "\<forall>c\<in>set (snd (migrate_images imgs)). \<exists>j e. c = PutImage j e"
  unfolding migrate_images_snd by (auto split: option.splits if_splits)

lemma migrate_section_puts: "\<forall>c\<in>set (fst (snd (migrate_section sec))). \<exists>j e. c = PutImage j e"
proof (cases sec)
  case (FieldsSection x1 x2 x3)
  then show ?thesis by simp
next
  case (ImagesSection sid title imgs)
  then show ?thesis using migrate_images_puts[of imgs] by (auto split: prod.splits)
qed

lemma migrateProjectState_puts: "\<forall>c\<in>set (snd (migrateProjectState p)). \<exists>j e. c = PutImage j e"
  unfolding migrateProjectState_calls using migrate_section_puts by auto

lemma migrate_inline_image:
  assumes "ai < length (articles p)"
      and "si < length (article_sections (articles p ! ai))"
      and "article_sections (articles p ! ai) ! si = ImagesSection sid title imgs"
      and "imgs \<noteq> []" and "image_dataUrl (hd imgs) \<noteq> None"
      and "k < length imgs"
      and "image_dataUrl (imgs ! k) = Some payload" and "payload \<noteq> []"
  shows "PutImage (image_id (imgs ! k)) payload \<in> set (snd (migrateProjectState p))
       \<and> (\<exists>imgs'. article_sections (articles (fst (migrateProjectState p)) ! ai) ! si
                     = ImagesSection sid title imgs'
                 \<and> length imgs' = length imgs
                 \<and> imgs' ! k = \<lparr>image_id = image_id (imgs ! k),
                                image_caption = image_caption (imgs ! k),
                                image_dataUrl = None\<rparr>)"
proof (intro conjI)
  let ?sec = "ImagesSection sid title imgs"
  let ?a = "articles p ! ai"
  have ms: "migrate_section ?sec = (ImagesSection sid title (fst (migrate_images imgs)), snd (migrate_images imgs), True)"
    using assms(4,5) by (auto split: prod.splits)
  have "PutImage (image_id (imgs ! k)) payload \<in> set (snd (migrate_images imgs))"
    using assms(6,7,8) unfolding migrate_images_snd
    by (auto intro!: bexI[of _ "imgs ! k"])
  then have "PutImage (image_id (imgs ! k)) payload \<in> set (fst (snd (migrate_section ?sec)))"
    unfolding ms by simp
  moreover have "?sec \<in> set (article_sections ?a)"
    using assms(2,3) by (metis nth_mem)
  ultimately have "PutImage (image_id (imgs ! k)) payload
      \<in> set (concat (map (\<lambda>s. fst (snd (migrate_section s))) (article_sections ?a)))"
    by (rule in_concat_map)
  moreover have "?a \<in> set (articles p)"
    using assms(1) by simp
  ultimately show "PutImage (image_id (imgs ! k)) payload \<in> set (snd (migrateProjectState p))"
    unfolding migrateProjectState_calls by (rule in_concat_map)
  have "article_sections (articles (fst (migrateProjectState p)) ! ai) ! si
          = ImagesSection sid title (fst (migrate_images imgs))"
    using migrateProjectState_section[OF assms(1,2)] unfolding assms(3) ms by simp
  moreover have "length (fst (migrate_images imgs)) = length imgs"
    by (simp add: migrate_images_fst)
  moreover have "fst (migrate_images imgs) ! k = \<lparr>image_id = image_id (imgs ! k),
                                image_caption = image_caption (imgs ! k),
                                image_dataUrl = None\<rparr>"
    using assms(6,7,8) by (simp add: migrate_images_fst truthy_def)
  ultimately show "\<exists>imgs'. article_sections (articles (fst (migrateProjectState p)) ! ai) ! si
                     = ImagesSection sid title imgs'
                 \<and> length imgs' = length imgs
                 \<and> imgs' ! k = \<lparr>image_id = image_id (imgs ! k),
                                image_caption = image_caption (imgs ! k),
                                image_dataUrl = None\<rparr>"
    by blast
qed

text \<open>
  Claim C6. Take any project and any gallery section in it (article \<open>ai\<close>, section
  \<open>si\<close>) that is not empty and whose first image has the \<^verbatim>\<open>dataUrl\<close> key. For every
  image of that section with a payload (a non-empty \<^verbatim>\<open>dataUrl\<close>, the test the code
  makes), the migration calls \<^verbatim>\<open>putImage\<close> with the image's own id and that payload.
  Whatever the blob store held before, once the calls of the migration have run it holds
  under the image's id a payload that the migration wrote under that id, which is the
  image's own payload when no other image was written under the same id with another
  payload. In the returned project the section is still a gallery with the same id, title
  and number of images, in which that image is the record of its id and caption with the
  \<^verbatim>\<open>dataUrl\<close> key absent.
\<close>

theorem C6_inline_images_migrated:
  assumes "ai < length (articles p)"
      and "si < length (article_sections (articles p ! ai))"
      and "article_sections (articles p ! ai) ! si = ImagesSection sid title imgs"
      and "imgs \<noteq> []" and "image_dataUrl (hd imgs) \<noteq> None"
      and "k < length imgs"
      and "image_dataUrl (imgs ! k) = Some payload" and "payload \<noteq> []"
  shows "PutImage (image_id (imgs ! k)) payload \<in> set (snd (migrateProjectState p))
       \<and> (\<exists>stored. db_run (snd (migrateProjectState p)) store (image_id (imgs ! k)) = Some stored
                   \<and> PutImage (image_id (imgs ! k)) stored \<in> set (snd (migrateProjectState p)))
       \<and> ((\<forall>d. PutImage (image_id (imgs ! k)) d \<in> set (snd (migrateProjectState p)) \<longrightarrow> d = payload)
            \<longrightarrow> db_run (snd (migrateProjectState p)) store (image_id (imgs ! k)) = Some payload)
       \<and> (\<exists>imgs'. article_sections (articles (fst (migrateProjectState p)) ! ai) ! si
                     = ImagesSection sid title imgs'
                 \<and> length imgs' = length imgs
                 \<and> imgs' ! k = \<lparr>image_id = image_id (imgs ! k),
                                image_caption = image_caption (imgs ! k),
                                image_dataUrl = None\<rparr>)"
proof -
  note a = migrate_inline_image[OF assms]
  from a have put: "PutImage (image_id (imgs ! k)) payload \<in> set (snd (migrateProjectState p))" by simp
  from db_run_puts[OF migrateProjectState_puts put, of store]
  obtain stored where st: "db_run (snd (migrateProjectState p)) store (image_id (imgs ! k)) = Some stored"
      "PutImage (image_id (imgs ! k)) stored \<in> set (snd (migrateProjectState p))"
    by blast
  then have "(\<forall>d. PutImage (image_id (imgs ! k)) d \<in> set (snd (migrateProjectState p)) \<longrightarrow> d = payload)
            \<longrightarrow> db_run (snd (migrateProjectState p)) store (image_id (imgs ! k)) = Some payload"
    by auto
  with a st show ?thesis by blast
qed

theorem C6_inline_images_migrated_witness:
  "PutImage ''i1'' ''data:1'' \<in> set (snd (migrateProjectState legacyGallery))
   \<and> db_run (snd (migrateProjectState legacyGallery)) [''i9'' \<mapsto> ''data:9''] ''i1'' = Some ''data:1''
   \<and> (\<exists>imgs'. article_sections (articles (fst (migrateProjectState legacyGallery)) ! 0) ! 0
                  = ImagesSection ''s1'' ''Maps'' imgs'
              \<and> length imgs' = 2
              \<and> imgs' ! 0 = \<lparr>image_id = ''i1'', image_caption = ''north'', image_dataUrl = None\<rparr>)"
proof -
  have calls: "snd (migrateProjectState legacyGallery) = [PutImage ''i1'' ''data:1'']"
    by (simp add: migrateProjectState_def)
  from C6_inline_images_migrated[where ai = 0 and p = legacyGallery and si = 0 and sid = "''s1''"
      and title = "''Maps''"
      and imgs = "[\<lparr>image_id = ''i1'', image_caption = ''north'', image_dataUrl = Some ''data:1''\<rparr>,
        \<lparr>image_id = ''i2'', image_caption = ''south'', image_dataUrl = None\<rparr>]"
      and k = 0 and payload = "''data:1''" and store = "[''i9'' \<mapsto> ''data:9'']"]
  show ?thesis
    unfolding calls by (simp add: eval_nat_numeral)
qed

text \<open>
  Claim C7. Take any project and any gallery section in it that is empty or whose first
  image has no \<^verbatim>\<open>dataUrl\<close> key, whatever the later images carry. The section step
  returns it unchanged with no \<^verbatim>\<open>putImage\<close> call and without setting
  \<^verbatim>\<open>migrationNeeded\<close>; the returned project holds the same section at the same
  place; and the calls of the whole migration are the calls of the section steps, one
  section after the other, so this section adds none.
\<close>

theorem C7_first_image_decides:
  assumes "ai < length (articles p)"
      and "si < length (article_sections (articles p ! ai))"
      and "article_sections (articles p ! ai) ! si = ImagesSection sid title imgs"
      and "imgs = [] \<or> image_dataUrl (hd imgs) = None"
  shows "migrate_section (ImagesSection sid title imgs) = (ImagesSection sid title imgs, [], False)
       \<and> article_sections (articles (fst (migrateProjectState p)) ! ai) ! si = ImagesSection sid title imgs
       \<and> snd (migrateProjectState p) =
           concat (map (\<lambda>a. concat (map (\<lambda>s. fst (snd (migrate_section s))) (article_sections a)))
                       (articles p))"
proof (intro conjI)
  show m: "migrate_section (ImagesSection sid title imgs) = (ImagesSection sid title imgs, [], False)"
    using assms(4) by auto
  show "article_sections (articles (fst (migrateProjectState p)) ! ai) ! si = ImagesSection sid title imgs"
    using migrateProjectState_section[OF assms(1,2)] assms(3) m by simp
  show "snd (migrateProjectState p) =
           concat (map (\<lambda>a. concat (map (\<lambda>s. fst (snd (migrate_section s))) (article_sections a)))
                       (articles p))"
    by (rule migrateProjectState_calls)
qed

theorem C7_first_image_decides_witness:
  "article_sections (articles (fst (migrateProjectState legacyGallery)) ! 0) ! 1
     = ImagesSection ''s2'' ''Plans''
         [\<lparr>image_id = ''i3'', image_caption = ''east'', image_dataUrl = None\<rparr>,
          \<lparr>image_id = ''i4'', image_caption = ''west'', image_dataUrl = Some ''data:4''\<rparr>]
   \<and> snd (migrateProjectState legacyGallery) = [PutImage ''i1'' ''data:1'']"
  using C7_first_image_decides[of 0 legacyGallery 1 "''s2''" "''Plans''"
      "[\<lparr>image_id = ''i3'', image_caption = ''east'', image_dataUrl = None\<rparr>,
        \<lparr>image_id = ''i4'', image_caption = ''west'', image_dataUrl = Some ''data:4''\<rparr>]"]
  by simp

section \<open>Loading a backup archive\<close>

text \<open>
  An archive that fails the test \<^verbatim>\<open>loadedProject.folders && loadedProject.articles\<close>
  leaves the component state as it was but for the alert. In the old format nothing else
  happens; in the new format the blob store has been cleared and refilled from the archive
  before the test is reached.
\<close>

lemma handleLoadBackup_rejected_old_format:
  assumes "ld_projectState d = None \<or> ld_images d = None"
      and "raw_folders (ld_self d) = None \<or> raw_articles (ld_self d) = None"
  shows "handleLoadBackup (JsonObject d) app = app\<lparr>alerts := alerts app @ [BackupInvalid]\<rparr>"
  using assms
  by (cases "ld_projectState d"; cases "ld_images d";
      cases "raw_folders (ld_self d)"; cases "raw_articles (ld_self d)")
     (simp_all add: handleLoadBackup_def)

lemma handleLoadBackup_rejected_new_format:
  assumes "ld_projectState d = Some ps" and "ld_images d = Some imgs"
      and "raw_folders ps = None \<or> raw_articles ps = None"
  shows "handleLoadBackup (JsonObject d) app =
           app\<lparr>dbCalls := dbCalls app @ [ClearImages, PutAllImages imgs],
               alerts := alerts app @ [BackupInvalid]\<rparr>"
  using assms
  by (cases "raw_folders ps"; cases "raw_articles ps") (simp_all add: handleLoadBackup_def)

text \<open>
  Claim C2, at the archive \<^verbatim>\<open>{"projectState": {"folders": []}, "images": []}\<close> loaded from
  the welcome screen. The archive is rejected with the alert for an invalid backup and the
  project state is not set, but \<^verbatim>\<open>clearImages\<close> and \<^verbatim>\<open>putAllImages\<close> have been
  called: an image that was in the blob store before the import is no longer there.
\<close>

theorem C2_rejected_archive_clears_images:
  "alerts (handleLoadBackup archiveWithoutArticles welcomeScreen) = [BackupInvalid]
   \<and> projectState (handleLoadBackup archiveWithoutArticles welcomeScreen) = None
   \<and> dbCalls (handleLoadBackup archiveWithoutArticles welcomeScreen) = [ClearImages, PutAllImages []]
   \<and> db_run (dbCalls (handleLoadBackup archiveWithoutArticles welcomeScreen))
         [''i1'' \<mapsto> ''data:1''] ''i1'' = None"
  by (simp add: handleLoadBackup_def db_run_def clearImages_def putAllImages_def)

section \<open>Sort order of a new sibling\<close>

lemma foldl_max_Max:
  "foldl (\<lambda>mx x. max mx (k x)) (m::int) xs = Max (set (m # map k xs))"
proof (induction xs arbitrary: m)
  case Nil
  then show ?case by simp
next
  case (Cons x xs)
  have "Max (insert (max m (k x)) (k ` set xs)) = Max (insert m (insert (k x) (k ` set xs)))"
    by (cases "k ` set xs = {}") (simp_all add: max.assoc)
  with Cons show ?case by simp
qed

lemma number_plus_one_ge: "x \<le> number_plus_one x"
  by (simp add: number_plus_one_def)

lemma number_plus_one_exact:
  "- 9007199254740992 \<le> x \<Longrightarrow> x < 9007199254740992 \<Longrightarrow> number_plus_one x = x + 1"
  by (simp add: number_plus_one_def)

lemma floored_max_props:
  fixes key :: "'a \<Rightarrow> int"
  assumes "n = number_plus_one (Max (set (-1 # map key sibs)))"
  shows "(\<forall>s\<in>set sibs. key s \<le> n)
       \<and> (sibs = [] \<longrightarrow> n = 0)
       \<and> ((\<forall>s\<in>set sibs. key s < 9007199254740992) \<longrightarrow>
            n = Max (set (-1 # map key sibs)) + 1
          \<and> (\<forall>s\<in>set sibs. key s < n)
          \<and> ((\<exists>s\<in>set sibs. -1 \<le> key s) \<longrightarrow> n = Max (set (map key sibs)) + 1))"
proof (intro conjI ballI impI)
  let ?M = "Max (set (-1 # map key sibs))"
  have ge: "\<And>s. s \<in> set sibs \<Longrightarrow> key s \<le> ?M" by (intro Max_ge) simp_all
  have lo: "-1 \<le> ?M" by (intro Max_ge) simp_all
  {
    fix s assume "s \<in> set sibs"
    from ge[OF this] number_plus_one_ge[of ?M] show "key s \<le> n" unfolding assms by linarith
  }
  {
    assume "sibs = []"
    then show "n = 0" by (simp add: assms number_plus_one_def)
  }
  assume safe: "\<forall>s\<in>set sibs. key s < 9007199254740992"
  have "?M \<in> set (-1 # map key sibs)" by (intro Max_in) simp_all
  with safe have hi: "?M < 9007199254740992" by auto
  have lo': "- 9007199254740992 \<le> ?M" using lo by linarith
  show exact: "n = ?M + 1" unfolding assms using lo' hi by (rule number_plus_one_exact)
  {
    fix s assume "s \<in> set sibs"
    from ge[OF this] exact show "key s < n" by simp
  }
  assume "\<exists>s\<in>set sibs. -1 \<le> key s"
  then obtain s where s: "s \<in> set sibs" "-1 \<le> key s" by blast
  then have ne: "key ` set sibs \<noteq> {}" by auto
  have "key s \<le> Max (key ` set sibs)" using s(1) by (intro Max_ge) simp_all
  then have "max (-1) (Max (key ` set sibs)) = Max (key ` set sibs)" using s(2) by simp
  then have "?M = Max (set (map key sibs))" using ne by simp
  with exact show "n = Max (set (map key sibs)) + 1" by simp
qed

lemma createFolder_state:
  assumes "projectState app = Some prev"
  shows "projectState (createFolder parentId uuid color app) =
     Some (prev\<lparr>folders := folders prev @
        [\<lparr>folder_id = uuid,
          folder_name = (if truthy parentId then ''Nova Subpasta'' else ''Nova Pasta''),
          folder_color = color, folder_parentId = parentId,
          folder_sortOrder =
            number_plus_one (Max (set (-1 # map folder_sortOrder
                             (filter (\<lambda>f. folder_parentId f = parentId) (folders prev)))))\<rparr>]\<rparr>)"
  using assms by (simp add: createFolder_def Let_def foldl_max_Max)

lemma handleCreateArticle_state:
  assumes "projectState app = Some prev" and "selectedFolderId app = Some fid" and "fid \<noteq> []"
  shows "projectState (handleCreateArticle uuid app) =
     Some (prev\<lparr>articles := articles prev @
        [\<lparr>article_id = uuid, article_title = ''Novo Artigo'', article_folderId = fid,
          article_sortOrder =
            number_plus_one (Max (set (-1 # map article_sortOrder
                             (filter (\<lambda>a. article_folderId a = fid \<and> article_parentId a = None)
                                     (articles prev))))),
          article_sections = [], article_relatedArticleIds = [], article_parentId = None\<rparr>]\<rparr>)"
  using assms by (simp add: handleCreateArticle_def Let_def foldl_max_Max)

lemma handleCreateSubArticle_state:
  assumes "projectState app = Some prev"
      and "find (\<lambda>a. article_id a = pid) (articles prev) = Some parent"
  shows "projectState (handleCreateSubArticle pid uuid app) =
     Some (prev\<lparr>articles := articles prev @
        [\<lparr>article_id = uuid, article_title = ''Novo Subartigo'',
          article_folderId = article_folderId parent,
          article_sortOrder =
            number_plus_one (Max (set (-1 # map article_sortOrder
                             (filter (\<lambda>a. article_parentId a = Some pid) (articles prev))))),
          article_sections = [], article_relatedArticleIds = [], article_parentId = Some pid\<rparr>],
        expandedArticleIds :=
          (if pid \<in> set (expandedArticleIds prev) then expandedArticleIds prev
           else expandedArticleIds prev @ [pid])\<rparr>)"
  using assms by (simp add: handleCreateSubArticle_def Let_def foldl_max_Max)

text \<open>
  Claim C3 as stated fails in two places. Where every sibling's \<open>sortOrder\<close> is below
  -1: the reducer starts from -1, so with one root folder of \<open>sortOrder\<close> -5 the new
  root folder gets 0, not -5 + 1. And where a sibling's \<open>sortOrder\<close> is \<open>2^53\<close>
  (9007199254740992): a double cannot hold \<open>2^53 + 1\<close>, the sum is rounded back to
  \<open>2^53\<close>, and the new root folder is not strictly greater than its sibling.
\<close>

theorem C3_counterexample:
  "projectState (createFolder None ''f2'' ''#888888'' negativeOrders) =
     Some \<lparr>folders =
             [\<lparr>folder_id = ''f1'', folder_name = ''Notes'', folder_color = ''#888888'',
               folder_parentId = None, folder_sortOrder = -5\<rparr>,
              \<lparr>folder_id = ''f2'', folder_name = ''Nova Pasta'', folder_color = ''#888888'',
               folder_parentId = None, folder_sortOrder = 0\<rparr>],
           articles = [], expandedFolderIds = [], expandedArticleIds = []\<rparr>
   \<and> (0::int) \<noteq> -5 + 1
   \<and> projectState (createFolder None ''f2'' ''#888888'' unsafeOrders) =
     Some \<lparr>folders =
             [\<lparr>folder_id = ''f1'', folder_name = ''Notes'', folder_color = ''#888888'',
               folder_parentId = None, folder_sortOrder = 9007199254740992\<rparr>,
              \<lparr>folder_id = ''f2'', folder_name = ''Nova Pasta'', folder_color = ''#888888'',
               folder_parentId = None, folder_sortOrder = 9007199254740992\<rparr>],
           articles = [], expandedFolderIds = [], expandedArticleIds = []\<rparr>
   \<and> \<not> (9007199254740992::int) < 9007199254740992"
  by (simp add: createFolder_def truthy_def number_plus_one_def)

text \<open>
  Claim C3, amended. In every project, \<^verbatim>\<open>createFolder\<close>, \<^verbatim>\<open>handleCreateArticle\<close> (with
  a folder selected) and \<^verbatim>\<open>handleCreateSubArticle\<close> (with the parent article present)
  append one node. Its siblings are the nodes the code filters: the folders with the same
  \<open>parentId\<close>; the articles of the selected folder without a parent; the articles with
  the same \<open>parentId\<close>. The new \<open>sortOrder\<close> is the double sum of one and the greatest
  of -1 and the siblings' \<open>sortOrder\<close>s; it is never below a sibling's, and it is 0 when
  there are no siblings. When every sibling's \<open>sortOrder\<close> is below \<open>2^53\<close>, it is
  exactly one more than the greatest of -1 and the siblings' \<open>sortOrder\<close>s, it is
  strictly greater than every sibling's, and it is the siblings' maximum plus one as soon
  as one sibling has a \<open>sortOrder\<close> of at least -1. Since this holds in every project,
  it holds at each call of a sequence of creations.
\<close>

theorem C3_new_sibling_sortOrder:
  assumes "projectState app = Some prev"
  shows
   "(\<exists>nf. projectState (createFolder parentId uuid color app) = Some (prev\<lparr>folders := folders prev @ [nf]\<rparr>)
        \<and> folder_id nf = uuid \<and> folder_parentId nf = parentId
        \<and> (let siblings = filter (\<lambda>f. folder_parentId f = parentId) (folders prev)
           in folder_sortOrder nf = number_plus_one (Max (set (-1 # map folder_sortOrder siblings)))
            \<and> (\<forall>f\<in>set siblings. folder_sortOrder f \<le> folder_sortOrder nf)
            \<and> (siblings = [] \<longrightarrow> folder_sortOrder nf = 0)
            \<and> ((\<forall>f\<in>set siblings. folder_sortOrder f < 9007199254740992) \<longrightarrow>
                 folder_sortOrder nf = Max (set (-1 # map folder_sortOrder siblings)) + 1
               \<and> (\<forall>f\<in>set siblings. folder_sortOrder f < folder_sortOrder nf)
               \<and> ((\<exists>f\<in>set siblings. -1 \<le> folder_sortOrder f)
                    \<longrightarrow> folder_sortOrder nf = Max (set (map folder_sortOrder siblings)) + 1))))
  \<and> (selectedFolderId app = Some fid \<and> fid \<noteq> [] \<longrightarrow>
      (\<exists>na. projectState (handleCreateArticle uuid app) = Some (prev\<lparr>articles := articles prev @ [na]\<rparr>)
        \<and> article_id na = uuid \<and> article_folderId na = fid \<and> article_parentId na = None
        \<and> (let siblings = filter (\<lambda>a. article_folderId a = fid \<and> article_parentId a = None) (articles prev)
           in article_sortOrder na = number_plus_one (Max (set (-1 # map article_sortOrder siblings)))
            \<and> (\<forall>a\<in>set siblings. article_sortOrder a \<le> article_sortOrder na)
            \<and> (siblings = [] \<longrightarrow> article_sortOrder na = 0)
            \<and> ((\<forall>a\<in>set siblings. article_sortOrder a < 9007199254740992) \<longrightarrow>
                 article_sortOrder na = Max (set (-1 # map article_sortOrder siblings)) + 1
               \<and> (\<forall>a\<in>set siblings. article_sortOrder a < article_sortOrder na)
               \<and> ((\<exists>a\<in>set siblings. -1 \<le> article_sortOrder a)
                    \<longrightarrow> article_sortOrder na = Max (set (map article_sortOrder siblings)) + 1)))))
  \<and> (find (\<lambda>a. article_id a = pid) (articles prev) = Some parent \<longrightarrow>
      (\<exists>na st. projectState (handleCreateSubArticle pid uuid app) = Some st
        \<and> articles st = articles prev @ [na] \<and> folders st = folders prev
        \<and> article_id na = uuid \<and> article_folderId na = article_folderId parent
        \<and> article_parentId na = Some pid
        \<and> (let siblings = filter (\<lambda>a. article_parentId a = Some pid) (articles prev)
           in article_sortOrder na = number_plus_one (Max (set (-1 # map article_sortOrder siblings)))
            \<and> (\<forall>a\<in>set siblings. article_sortOrder a \<le> article_sortOrder na)
            \<and> (siblings = [] \<longrightarrow> article_sortOrder na = 0)
            \<and> ((\<forall>a\<in>set siblings. article_sortOrder a < 9007199254740992) \<longrightarrow>
                 article_sortOrder na = Max (set (-1 # map article_sortOrder siblings)) + 1
               \<and> (\<forall>a\<in>set siblings. article_sortOrder a < article_sortOrder na)
               \<and> ((\<exists>a\<in>set siblings. -1 \<le> article_sortOrder a)
                    \<longrightarrow> article_sortOrder na = Max (set (map article_sortOrder siblings)) + 1)))))"
proof (intro conjI impI)
  let ?sibs = "filter (\<lambda>f. folder_parentId f = parentId) (folders prev)"
  let ?nf = "\<lparr>folder_id = uuid,
             folder_name = (if truthy parentId then ''Nova Subpasta'' else ''Nova Pasta''),
             folder_color = color, folder_parentId = parentId,
             folder_sortOrder = number_plus_one (Max (set (-1 # map folder_sortOrder ?sibs)))\<rparr>"
  have st: "projectState (createFolder parentId uuid color app) = Some (prev\<lparr>folders := folders prev @ [?nf]\<rparr>)"
    by (rule createFolder_state[OF assms])
  have sel: "folder_id ?nf = uuid" "folder_parentId ?nf = parentId"
    and n: "folder_sortOrder ?nf = number_plus_one (Max (set (-1 # map folder_sortOrder ?sibs)))"
    by simp_all
  show "\<exists>nf. projectState (createFolder parentId uuid color app) = Some (prev\<lparr>folders := folders prev @ [nf]\<rparr>)
        \<and> folder_id nf = uuid \<and> folder_parentId nf = parentId
        \<and> (let siblings = filter (\<lambda>f. folder_parentId f = parentId) (folders prev)
           in folder_sortOrder nf = number_plus_one (Max (set (-1 # map folder_sortOrder siblings)))
            \<and> (\<forall>f\<in>set siblings. folder_sortOrder f \<le> folder_sortOrder nf)
            \<and> (siblings = [] \<longrightarrow> folder_sortOrder nf = 0)
            \<and> ((\<forall>f\<in>set siblings. folder_sortOrder f < 9007199254740992) \<longrightarrow>
                 folder_sortOrder nf = Max (set (-1 # map folder_sortOrder siblings)) + 1
               \<and> (\<forall>f\<in>set siblings. folder_sortOrder f < folder_sortOrder nf)
               \<and> ((\<exists>f\<in>set siblings. -1 \<le> folder_sortOrder f)
                    \<longrightarrow> folder_sortOrder nf = Max (set (map folder_sortOrder siblings)) + 1)))"
    unfolding Let_def using st sel n floored_max_props[OF n] by blast
next
  assume sel0: "selectedFolderId app = Some fid \<and> fid \<noteq> []"
  let ?sibs = "filter (\<lambda>a. article_folderId a = fid \<and> article_parentId a = None) (articles prev)"
  let ?na = "\<lparr>article_id = uuid, article_title = ''Novo Artigo'', article_folderId = fid,
              article_sortOrder = number_plus_one (Max (set (-1 # map article_sortOrder ?sibs))),
              article_sections = [], article_relatedArticleIds = [], article_parentId = None\<rparr>"
  have st: "projectState (handleCreateArticle uuid app) = Some (prev\<lparr>articles := articles prev @ [?na]\<rparr>)"
    by (rule handleCreateArticle_state[OF assms conjunct1[OF sel0] conjunct2[OF sel0]])
  have sel: "article_id ?na = uuid" "article_folderId ?na = fid" "article_parentId ?na = None"
    and n: "article_sortOrder ?na = number_plus_one (Max (set (-1 # map article_sortOrder ?sibs)))"
    by simp_all
  show "\<exists>na. projectState (handleCreateArticle uuid app) = Some (prev\<lparr>articles := articles prev @ [na]\<rparr>)
        \<and> article_id na = uuid \<and> article_folderId na = fid \<and> article_parentId na = None
        \<and> (let siblings = filter (\<lambda>a. article_folderId a = fid \<and> article_parentId a = None) (articles prev)
           in article_sortOrder na = number_plus_one (Max (set (-1 # map article_sortOrder siblings)))
            \<and> (\<forall>a\<in>set siblings. article_sortOrder a \<le> article_sortOrder na)
            \<and> (siblings = [] \<longrightarrow> article_sortOrder na = 0)
            \<and> ((\<forall>a\<in>set siblings. article_sortOrder a < 9007199254740992) \<longrightarrow>
                 article_sortOrder na = Max (set (-1 # map article_sortOrder siblings)) + 1
               \<and> (\<forall>a\<in>set siblings. article_sortOrder a < article_sortOrder na)
               \<and> ((\<exists>a\<in>set siblings. -1 \<le> article_sortOrder a)
                    \<longrightarrow> article_sortOrder na = Max (set (map article_sortOrder siblings)) + 1)))"
    unfolding Let_def using st sel n floored_max_props[OF n] by blast
next
  assume par: "find (\<lambda>a. article_id a = pid) (articles prev) = Some parent"
  let ?sibs = "filter (\<lambda>a. article_parentId a = Some pid) (articles prev)"
  let ?na = "\<lparr>article_id = uuid, article_title = ''Novo Subartigo'',
              article_folderId = article_folderId parent,
              article_sortOrder = number_plus_one (Max (set (-1 # map article_sortOrder ?sibs))),
              article_sections = [], article_relatedArticleIds = [], article_parentId = Some pid\<rparr>"
  let ?st = "prev\<lparr>articles := articles prev @ [?na],
                  expandedArticleIds :=
                    (if pid \<in> set (expandedArticleIds prev) then expandedArticleIds prev
                     else expandedArticleIds prev @ [pid])\<rparr>"
  have st: "projectState (handleCreateSubArticle pid uuid app) = Some ?st"
    by (rule handleCreateSubArticle_state[OF assms par])
  have sel: "articles ?st = articles prev @ [?na]" "folders ?st = folders prev"
      "article_id ?na = uuid" "article_folderId ?na = article_folderId parent"
      "article_parentId ?na = Some pid"
    and n: "article_sortOrder ?na = number_plus_one (Max (set (-1 # map article_sortOrder ?sibs)))"
    by simp_all
  show "\<exists>na st. projectState (handleCreateSubArticle pid uuid app) = Some st
        \<and> articles st = articles prev @ [na] \<and> folders st = folders prev
        \<and> article_id na = uuid \<and> article_folderId na = article_folderId parent
        \<and> article_parentId na = Some pid
        \<and> (let siblings = filter (\<lambda>a. article_parentId a = Some pid) (articles prev)
           in article_sortOrder na = number_plus_one (Max (set (-1 # map article_sortOrder siblings)))
            \<and> (\<forall>a\<in>set siblings. article_sortOrder a \<le> article_sortOrder na)
            \<and> (siblings = [] \<longrightarrow> article_sortOrder na = 0)
            \<and> ((\<forall>a\<in>set siblings. article_sortOrder a < 9007199254740992) \<longrightarrow>
                 article_sortOrder na = Max (set (-1 # map article_sortOrder siblings)) + 1
               \<and> (\<forall>a\<in>set siblings. article_sortOrder a < article_sortOrder na)
               \<and> ((\<exists>a\<in>set siblings. -1 \<le> article_sortOrder a)
                    \<longrightarrow> article_sortOrder na = Max (set (map article_sortOrder siblings)) + 1)))"
    unfolding Let_def using st sel n floored_max_props[OF n] by blast
qed

theorem C3_new_sibling_sortOrder_witness:
  "projectState atlasApp = Some atlasProject
   \<and> selectedFolderId atlasApp = Some ''f3''
   \<and> (\<exists>nf. projectState (createFolder (Some ''f1'') ''n1'' ''#888888'' atlasApp)
               = Some (atlasProject\<lparr>folders := folders atlasProject @ [nf]\<rparr>)
           \<and> folder_sortOrder nf = 1)
   \<and> (\<exists>na. projectState (handleCreateArticle ''n1'' atlasApp)
               = Some (atlasProject\<lparr>articles := articles atlasProject @ [na]\<rparr>)
           \<and> article_sortOrder na = 2)
   \<and> (\<exists>na st. projectState (handleCreateSubArticle ''a1'' ''n1'' atlasApp) = Some st
           \<and> articles st = articles atlasProject @ [na]
           \<and> article_sortOrder na = 1)"
  using C3_new_sibling_sortOrder[where app = atlasApp and prev = atlasProject
          and parentId = "Some ''f1''" and uuid = "''n1''" and color = "''#888888''"
          and fid = "''f3''" and pid = "''a1''" and parent = "hd (articles atlasProject)"]
  by (simp add: Let_def number_plus_one_def) blast

section \<open>Cascading delete of a folder\<close>

text \<open>
  The queue of the loop, as a multiset, gets smaller in the multiset extension of the parent
  graph at every turn: the id taken from the front is replaced by ids of its children.
  When the graph is well-founded the loop therefore returns, and it returns the set it
  started from together with every descendant of an id in the queue.
\<close>

lemma folderEdges_finite: "finite (folderEdges fs)"
proof -
  have "folderEdges fs \<subseteq> (\<lambda>f. (folder_id f, the (folder_parentId f))) ` set fs"
    by (auto simp: folderEdges_def image_iff intro!: bexI)
  then show ?thesis by (rule finite_subset) simp
qed

lemma folder_children_ids:
  "set (map folder_id (filter (\<lambda>f. folder_parentId f = Some c) fs)) = {i. (i, c) \<in> folderEdges fs}"
  by (auto simp: folderEdges_def)

lemma trancl_last_step: "{i. (i, x) \<in> r\<^sup>+} = {i. (i, x) \<in> r} \<union> {i. \<exists>c. (c, x) \<in> r \<and> (i, c) \<in> r\<^sup>+}"
proof (intro set_eqI iffI)
  fix i assume "i \<in> {i. (i, x) \<in> r\<^sup>+}"
  then have "(i, x) \<in> r\<^sup>+" by simp
  then show "i \<in> {i. (i, x) \<in> r} \<union> {i. \<exists>c. (c, x) \<in> r \<and> (i, c) \<in> r\<^sup>+}"
    by (cases rule: trancl.cases) auto
next
  fix i assume "i \<in> {i. (i, x) \<in> r} \<union> {i. \<exists>c. (c, x) \<in> r \<and> (i, c) \<in> r\<^sup>+}"
  then show "i \<in> {i. (i, x) \<in> r\<^sup>+}"
    by (auto intro: trancl_into_trancl)
qed

lemma deleteFolder_loop_result:
  assumes "wf (folderEdges fs)"
  shows "\<exists>ids. deleteFolder_loop fs queue acc = Some ids
             \<and> set ids = set acc \<union> {i. \<exists>q\<in>set queue. (i, q) \<in> (folderEdges fs)\<^sup>+}"
proof (induction queue arbitrary: acc
       rule: wf_induct_rule[OF wf_inv_image[OF wf_mult1[OF assms], of mset]])
  case (1 queue)
  let ?r = "folderEdges fs"
  show ?case
  proof (cases queue)
    case Nil
    then show ?thesis by (simp add: deleteFolder_loop.simps)
  next
    case (Cons x rest)
    let ?C = "map folder_id (filter (\<lambda>f. folder_parentId f = Some x) fs)"
    have C: "set ?C = {i. (i, x) \<in> ?r}" by (rule folder_children_ids)
    have "(mset (rest @ ?C), mset queue) \<in> mult1 ?r"
    proof (rule mult1I)
      show "mset queue = add_mset x (mset rest)" using Cons by simp
      show "mset (rest @ ?C) = mset rest + mset ?C" by simp
      fix b assume "b \<in># mset ?C"
      then have "b \<in> set ?C" by simp
      then show "(b, x) \<in> ?r" unfolding C by simp
    qed
    then have "(rest @ ?C, queue) \<in> inv_image (mult1 ?r) mset" by simp
    from "1.IH"[OF this, of "foldl Set_add acc ?C"]
    obtain ids where ids: "deleteFolder_loop fs (rest @ ?C) (foldl Set_add acc ?C) = Some ids"
      and sets: "set ids = set (foldl Set_add acc ?C) \<union> {i. \<exists>q\<in>set (rest @ ?C). (i, q) \<in> ?r\<^sup>+}"
      by blast
    have step: "deleteFolder_loop fs queue acc = deleteFolder_loop fs (rest @ ?C) (foldl Set_add acc ?C)"
      by (subst deleteFolder_loop.simps) (simp add: Cons Let_def)
    have "set ids = set acc \<union> set ?C \<union> {i. \<exists>q\<in>set rest. (i, q) \<in> ?r\<^sup>+}
                      \<union> {i. \<exists>c\<in>set ?C. (i, c) \<in> ?r\<^sup>+}"
      unfolding sets foldl_Set_add_set by auto
    also have "\<dots> = set acc \<union> {i. (i, x) \<in> ?r\<^sup>+} \<union> {i. \<exists>q\<in>set rest. (i, q) \<in> ?r\<^sup>+}"
      unfolding trancl_last_step[of x ?r] C by auto
    also have "\<dots> = set acc \<union> {i. \<exists>q\<in>set queue. (i, q) \<in> ?r\<^sup>+}"
      using Cons by auto
    finally show ?thesis using ids step by simp
  qed
qed


lemma subtreeIds_eq: "subtreeIds fs root = set [root] \<union> {i. \<exists>q\<in>set [root]. (i, q) \<in> (folderEdges fs)\<^sup>+}"
  by (auto simp: subtreeIds_def rtrancl_eq_or_trancl)

lemma handleDeleteFolder_result:
  assumes "projectState app = Some prev"
      and "find (\<lambda>f. folder_id f = fid) (folders prev) = Some folderToDelete"
      and "acyclic (folderEdges (folders prev))"
  shows "\<exists>ids. set ids = subtreeIds (folders prev) fid
     \<and> handleDeleteFolder fid app =
         Some (app\<lparr>projectState :=
                      Some (prev\<lparr>folders := filter (\<lambda>f. folder_id f \<notin> set ids) (folders prev),
                                 articles := filter (\<lambda>a. article_folderId a \<notin> set ids) (articles prev)\<rparr>),
                    selectedFolderId :=
                      (if truthy (selectedFolderId app)
                          \<and> (case selectedFolderId app of None \<Rightarrow> False | Some sel \<Rightarrow> sel \<in> set ids)
                       then (if truthy (folder_parentId folderToDelete)
                                \<and> (case folder_parentId folderToDelete of
                                      None \<Rightarrow> False | Some pid \<Rightarrow> pid \<notin> set ids)
                             then folder_parentId folderToDelete
                             else if filter (\<lambda>f. folder_id f \<notin> set ids) (folders prev) \<noteq> []
                               then Some (folder_id (hd (filter (\<lambda>f. folder_id f \<notin> set ids) (folders prev))))
                             else None)
                       else selectedFolderId app),
                    dbCalls := dbCalls app
                       @ articles_deleteImages (filter (\<lambda>a. article_folderId a \<in> set ids) (articles prev))\<rparr>)"
proof -
  have "wf (folderEdges (folders prev))"
    using folderEdges_finite assms(3) by (rule finite_acyclic_wf)
  from deleteFolder_loop_result[OF this, of "[fid]" "[fid]"]
  obtain ids where loop: "deleteFolder_loop (folders prev) [fid] [fid] = Some ids"
    and ids: "set ids = subtreeIds (folders prev) fid"
    unfolding subtreeIds_eq by blast
  have "Set_new [fid] = [fid]" by (simp add: Set_new_def Set_add_def Set_has_def)
  then have "handleDeleteFolder fid app =
         Some (app\<lparr>projectState :=
                      Some (prev\<lparr>folders := filter (\<lambda>f. folder_id f \<notin> set ids) (folders prev),
                                 articles := filter (\<lambda>a. article_folderId a \<notin> set ids) (articles prev)\<rparr>),
                    selectedFolderId :=
                      (if truthy (selectedFolderId app)
                          \<and> (case selectedFolderId app of None \<Rightarrow> False | Some sel \<Rightarrow> sel \<in> set ids)
                       then (if truthy (folder_parentId folderToDelete)
                                \<and> (case folder_parentId folderToDelete of
                                      None \<Rightarrow> False | Some pid \<Rightarrow> pid \<notin> set ids)
                             then folder_parentId folderToDelete
                             else if filter (\<lambda>f. folder_id f \<notin> set ids) (folders prev) \<noteq> []
                               then Some (folder_id (hd (filter (\<lambda>f. folder_id f \<notin> set ids) (folders prev))))
                             else None)
                       else selectedFolderId app),
                    dbCalls := dbCalls app
                       @ articles_deleteImages (filter (\<lambda>a. article_folderId a \<in> set ids) (articles prev))\<rparr>)"
    unfolding handleDeleteFolder_def Set_has_def Let_def
    using assms(1,2) loop by simp
  with ids show ?thesis by blast
qed

lemma find_folder_by_id:
  "fid \<in> folder_id ` set fs \<Longrightarrow> \<exists>f. find (\<lambda>f. folder_id f = fid) fs = Some f \<and> f \<in> set fs \<and> folder_id f = fid"
  by (induction fs) auto

lemma in_articles_deleteImages:
  assumes "a \<in> set as" and "ImagesSection sid title imgs \<in> set (article_sections a)" and "img \<in> set imgs"
  shows "DeleteImage (image_id img) \<in> set (articles_deleteImages as)"
proof -
  have "DeleteImage (image_id img) \<in> set (section_deleteImages (ImagesSection sid title imgs))"
    using assms(3) by simp
  then have "DeleteImage (image_id img)
      \<in> set (concat (map section_deleteImages (article_sections a)))"
    using assms(2) by (rule in_concat_map)
  then show ?thesis
    unfolding articles_deleteImages_def using assms(1) by (rule in_concat_map)
qed

lemma parent_outside_subtree:
  assumes "acyclic (folderEdges fs)" and "f \<in> set fs" and "folder_parentId f = Some pid"
  shows "pid \<notin> subtreeIds fs (folder_id f)"
proof
  assume "pid \<in> subtreeIds fs (folder_id f)"
  then have "(pid, folder_id f) \<in> (folderEdges fs)\<^sup>*" by (simp add: subtreeIds_def)
  moreover have "(folder_id f, pid) \<in> folderEdges fs"
    using assms(2,3) by (auto simp: folderEdges_def)
  ultimately have "(folder_id f, folder_id f) \<in> (folderEdges fs)\<^sup>+"
    by (rule rtrancl_into_trancl2[rotated])
  with assms(1) show False by (simp add: acyclic_def)
qed

lemma atlas_acyclic: "acyclic (folderEdges (folders atlasProject))"
  by (rule acyclicI_order[where f = "\<lambda>i. if i = ''f1'' then 0 else if i = ''f3'' then 1 else (2::nat)"])
     (auto simp: folderEdges_def)

text \<open>
  Without acyclicity the loop need not return: for a folder that is its own parent the
  queue never empties.
\<close>

lemma deleteFolder_loop_cycle:
  assumes "deleteFolder_loop fs queue acc = Some y"
  shows "\<not> (fs = folders (the (projectState selfParent)) \<and> queue \<noteq> [] \<and> set queue \<subseteq> {''f1''})"
proof (rule deleteFolder_loop.raw_induct
         [where P = "\<lambda>fs queue acc y.
            \<not> (fs = folders (the (projectState selfParent)) \<and> queue \<noteq> [] \<and> set queue \<subseteq> {''f1''})",
          OF _ assms])
  fix loop :: "Folder list \<Rightarrow> string list \<Rightarrow> string list \<Rightarrow> string list option"
  fix fs' :: "Folder list" and queue' acc' y' :: "string list"
  assume IH: "\<And>fs queue acc y. loop fs queue acc = Some y \<Longrightarrow>
                \<not> (fs = folders (the (projectState selfParent)) \<and> queue \<noteq> [] \<and> set queue \<subseteq> {''f1''})"
  assume step: "(case queue' of
                   [] \<Rightarrow> Some acc'
                 | currentId # rest \<Rightarrow>
                     let children = filter (\<lambda>f. folder_parentId f = Some currentId) fs'
                     in loop fs' (rest @ map folder_id children)
                          (foldl Set_add acc' (map folder_id children))) = Some y'"
  show "\<not> (fs' = folders (the (projectState selfParent)) \<and> queue' \<noteq> [] \<and> set queue' \<subseteq> {''f1''})"
  proof
    assume c: "fs' = folders (the (projectState selfParent)) \<and> queue' \<noteq> [] \<and> set queue' \<subseteq> {''f1''}"
    then obtain rest where q: "queue' = ''f1'' # rest" and rest: "set rest \<subseteq> {''f1''}"
      by (cases queue') auto
    from step q c
    have "loop fs' (rest @ [''f1'']) (foldl Set_add acc' [''f1'']) = Some y'"
      by (simp add: Let_def)
    from IH[OF this] c rest show False by auto
  qed
qed

lemma handleDeleteFolder_cycle_never_returns: "handleDeleteFolder ''f1'' selfParent = None"
proof -
  have "deleteFolder_loop (folders (the (projectState selfParent))) [''f1''] [''f1''] = None"
    using deleteFolder_loop_cycle[of "folders (the (projectState selfParent))" "[''f1'']" "[''f1'']"]
    by (cases "deleteFolder_loop (folders (the (projectState selfParent))) [''f1''] [''f1'']") auto
  then show ?thesis
    by (simp add: handleDeleteFolder_def Set_new_def Set_add_def Set_has_def)
qed

text \<open>
  Claim C1. Take a project whose folder parent graph is acyclic (the invariant of section 3
  of the specification) and the id of a folder in it. Then \<^verbatim>\<open>handleDeleteFolder\<close>
  returns; the folders left are exactly the folders whose id is not in the subtree rooted
  at the id; the articles left are exactly the articles whose \<open>folderId\<close> is not in
  that subtree; for every removed article, every gallery section of it and every image of
  that section, a \<^verbatim>\<open>deleteImage\<close> call with the image's id has been issued (the calls
  issued are those of the removed articles, in order); no article that is left has a
  \<open>folderId\<close> in the subtree, and if its \<open>folderId\<close> was the id of a folder, that
  folder is still there.
\<close>

theorem C1_deleteFolder_cascade:
  assumes "projectState app = Some prev"
      and "fid \<in> folder_id ` set (folders prev)"
      and "acyclic (folderEdges (folders prev))"
  shows "\<exists>app' next.
           handleDeleteFolder fid app = Some app' \<and> projectState app' = Some next
         \<and> folders next = filter (\<lambda>f. folder_id f \<notin> subtreeIds (folders prev) fid) (folders prev)
         \<and> articles next = filter (\<lambda>a. article_folderId a \<notin> subtreeIds (folders prev) fid) (articles prev)
         \<and> (\<forall>a\<in>set (articles prev). article_folderId a \<in> subtreeIds (folders prev) fid \<longrightarrow>
               (\<forall>sid title imgs. ImagesSection sid title imgs \<in> set (article_sections a) \<longrightarrow>
                  (\<forall>img\<in>set imgs. DeleteImage (image_id img) \<in> set (dbCalls app'))))
         \<and> dbCalls app' = dbCalls app
              @ articles_deleteImages
                  (filter (\<lambda>a. article_folderId a \<in> subtreeIds (folders prev) fid) (articles prev))
         \<and> (\<forall>a\<in>set (articles next). article_folderId a \<notin> subtreeIds (folders prev) fid)
         \<and> (\<forall>a\<in>set (articles next). \<forall>f\<in>set (folders prev).
               article_folderId a = folder_id f \<longrightarrow> f \<in> set (folders next))"
proof -
  let ?T = "subtreeIds (folders prev) fid"
  from find_folder_by_id[OF assms(2)] obtain ftd
    where fnd: "find (\<lambda>f. folder_id f = fid) (folders prev) = Some ftd" by blast
  from handleDeleteFolder_result[OF assms(1) fnd assms(3)]
  obtain ids app' where ids: "set ids = ?T"
    and res: "handleDeleteFolder fid app = Some app'"
    and ps: "projectState app' =
               Some (prev\<lparr>folders := filter (\<lambda>f. folder_id f \<notin> set ids) (folders prev),
                          articles := filter (\<lambda>a. article_folderId a \<notin> set ids) (articles prev)\<rparr>)"
    and calls: "dbCalls app' = dbCalls app
                  @ articles_deleteImages (filter (\<lambda>a. article_folderId a \<in> set ids) (articles prev))"
    by fastforce
  let ?next = "prev\<lparr>folders := filter (\<lambda>f. folder_id f \<notin> ?T) (folders prev),
                    articles := filter (\<lambda>a. article_folderId a \<notin> ?T) (articles prev)\<rparr>"
  have ps': "projectState app' = Some ?next" using ps unfolding ids .
  have calls': "dbCalls app' = dbCalls app
                  @ articles_deleteImages (filter (\<lambda>a. article_folderId a \<in> ?T) (articles prev))"
    using calls unfolding ids .
  have imgs: "\<forall>a\<in>set (articles prev). article_folderId a \<in> ?T \<longrightarrow>
               (\<forall>sid title imgs. ImagesSection sid title imgs \<in> set (article_sections a) \<longrightarrow>
                  (\<forall>img\<in>set imgs. DeleteImage (image_id img) \<in> set (dbCalls app')))"
  proof (intro ballI impI allI)
    fix a sid title imgs img
    assume "a \<in> set (articles prev)" "article_folderId a \<in> ?T"
      "ImagesSection sid title imgs \<in> set (article_sections a)" "img \<in> set imgs"
    then have "DeleteImage (image_id img)
        \<in> set (articles_deleteImages (filter (\<lambda>a. article_folderId a \<in> ?T) (articles prev)))"
      by (intro in_articles_deleteImages[of a _ sid title imgs img]) simp_all
    then show "DeleteImage (image_id img) \<in> set (dbCalls app')"
      unfolding calls' by simp
  qed
  have f1: "folders ?next = filter (\<lambda>f. folder_id f \<notin> ?T) (folders prev)"
    and f2: "articles ?next = filter (\<lambda>a. article_folderId a \<notin> ?T) (articles prev)"
    by simp_all
  have f3: "\<forall>a\<in>set (articles ?next). article_folderId a \<notin> ?T"
    by simp
  have f4: "\<forall>a\<in>set (articles ?next). \<forall>f\<in>set (folders prev).
               article_folderId a = folder_id f \<longrightarrow> f \<in> set (folders ?next)"
    by auto
  show ?thesis
    using res ps' f1 f2 imgs calls' f3 f4 by blast
qed

theorem C1_deleteFolder_cascade_witness:
  "projectState atlasApp = Some atlasProject
   \<and> ''f1'' \<in> folder_id ` set (folders atlasProject)
   \<and> acyclic (folderEdges (folders atlasProject))
   \<and> (\<exists>app' next.
          handleDeleteFolder ''f1'' atlasApp = Some app' \<and> projectState app' = Some next
        \<and> folders next = filter (\<lambda>f. folder_id f \<notin> subtreeIds (folders atlasProject) ''f1'')
                             (folders atlasProject)
        \<and> map folder_id (folders next) = [''f2'']
        \<and> map article_id (articles next) = [''a3'']
        \<and> dbCalls app' = [DeleteImage ''i1'', DeleteImage ''i2''])"
proof -
  have ev: "handleDeleteFolder ''f1'' atlasApp =
      Some (atlasApp\<lparr>projectState :=
              Some (atlasProject\<lparr>folders := [folders atlasProject ! 1],
                                 articles := [articles atlasProject ! 2]\<rparr>),
            selectedFolderId := Some ''f2'',
            dbCalls := [DeleteImage ''i1'', DeleteImage ''i2'']\<rparr>)"
    by (simp add: handleDeleteFolder_def deleteFolder_loop.simps Set_new_def Set_add_def Set_has_def
          truthy_def articles_deleteImages_def Let_def)
  from C1_deleteFolder_cascade[of atlasApp atlasProject "''f1''", OF _ _ atlas_acyclic]
  obtain app' "next" where r: "handleDeleteFolder ''f1'' atlasApp = Some app'"
      "projectState app' = Some next"
      "folders next = filter (\<lambda>f. folder_id f \<notin> subtreeIds (folders atlasProject) ''f1'')
                             (folders atlasProject)"
    by auto
  from r(1) ev have "app' = atlasApp\<lparr>projectState :=
              Some (atlasProject\<lparr>folders := [folders atlasProject ! 1],
                                 articles := [articles atlasProject ! 2]\<rparr>),
            selectedFolderId := Some ''f2'',
            dbCalls := [DeleteImage ''i1'', DeleteImage ''i2'']\<rparr>" by simp
  with r(2) have "map folder_id (folders next) = [''f2'']" "map article_id (articles next) = [''a3'']"
      "dbCalls app' = [DeleteImage ''i1'', DeleteImage ''i2'']"
    by auto
  with r atlas_acyclic show ?thesis by auto
qed

text \<open>
  The selection after \<^verbatim>\<open>handleDeleteFolder\<close> has removed the selected folder, as
  the handler computes it in a project with an acyclic parent graph, and its first branch:
  when the deleted folder's parent is a folder of the project, that folder is left and its
  id is selected.
\<close>

lemma handleDeleteFolder_selection:
  assumes "projectState app = Some prev"
      and "find (\<lambda>f. folder_id f = fid) (folders prev) = Some folderToDelete"
      and "acyclic (folderEdges (folders prev))"
      and "selectedFolderId app = Some sel" and "sel \<noteq> []"
      and "sel \<in> subtreeIds (folders prev) fid"
  shows "\<exists>app' next.
           handleDeleteFolder fid app = Some app' \<and> projectState app' = Some next
         \<and> folders next = filter (\<lambda>f. folder_id f \<notin> subtreeIds (folders prev) fid) (folders prev)
         \<and> selectedFolderId app' =
             (if truthy (folder_parentId folderToDelete) then folder_parentId folderToDelete
              else if folders next \<noteq> [] then Some (folder_id (hd (folders next)))
              else None)
         \<and> (case folder_parentId folderToDelete of
               None \<Rightarrow> True
             | Some pid \<Rightarrow> pid \<notin> subtreeIds (folders prev) fid)"
proof -
  let ?T = "subtreeIds (folders prev) fid"
  from handleDeleteFolder_result[OF assms(1,2,3)]
  obtain ids where ids: "set ids = ?T"
    and res: "handleDeleteFolder fid app =
         Some (app\<lparr>projectState :=
                      Some (prev\<lparr>folders := filter (\<lambda>f. folder_id f \<notin> set ids) (folders prev),
                                 articles := filter (\<lambda>a. article_folderId a \<notin> set ids) (articles prev)\<rparr>),
                    selectedFolderId :=
                      (if truthy (selectedFolderId app)
                          \<and> (case selectedFolderId app of None \<Rightarrow> False | Some sel \<Rightarrow> sel \<in> set ids)
                       then (if truthy (folder_parentId folderToDelete)
                                \<and> (case folder_parentId folderToDelete of
                                      None \<Rightarrow> False | Some pid \<Rightarrow> pid \<notin> set ids)
                             then folder_parentId folderToDelete
                             else if filter (\<lambda>f. folder_id f \<notin> set ids) (folders prev) \<noteq> []
                               then Some (folder_id (hd (filter (\<lambda>f. folder_id f \<notin> set ids) (folders prev))))
                             else None)
                       else selectedFolderId app),
                    dbCalls := dbCalls app
                       @ articles_deleteImages (filter (\<lambda>a. article_folderId a \<in> set ids) (articles prev))\<rparr>)"
    by blast
  have mem: "folderToDelete \<in> set (folders prev)" and fid: "folder_id folderToDelete = fid"
    using assms(2) by (auto simp: find_Some_iff)
  have par: "case folder_parentId folderToDelete of None \<Rightarrow> True | Some pid \<Rightarrow> pid \<notin> ?T"
    using parent_outside_subtree[OF assms(3) mem] fid by (auto split: option.splits)
  have seltrue: "truthy (selectedFolderId app)
                  \<and> (case selectedFolderId app of None \<Rightarrow> False | Some sel \<Rightarrow> sel \<in> set ids)"
    using assms(4,5,6) ids by (simp add: truthy_def)
  have parcond: "(truthy (folder_parentId folderToDelete)
                   \<and> (case folder_parentId folderToDelete of None \<Rightarrow> False | Some pid \<Rightarrow> pid \<notin> set ids))
                 = truthy (folder_parentId folderToDelete)"
    using par ids by (auto simp: truthy_def split: option.splits)
  show ?thesis
    unfolding res using par by (simp add: seltrue parcond ids)
qed

lemma handleDeleteFolder_selects_surviving_parent:
  assumes "projectState app = Some prev"
      and "find (\<lambda>f. folder_id f = fid) (folders prev) = Some folderToDelete"
      and "acyclic (folderEdges (folders prev))"
      and "selectedFolderId app = Some sel" and "sel \<noteq> []"
      and "sel \<in> subtreeIds (folders prev) fid"
      and "folder_parentId folderToDelete = Some pid" and "pid \<noteq> []"
      and "parent \<in> set (folders prev)" and "folder_id parent = pid"
  shows "\<exists>app' next.
           handleDeleteFolder fid app = Some app' \<and> projectState app' = Some next
         \<and> parent \<in> set (folders next) \<and> selectedFolderId app' = Some pid"
proof -
  from handleDeleteFolder_selection[OF assms(1-6)]
  obtain app' "next" where r: "handleDeleteFolder fid app = Some app'" "projectState app' = Some next"
      "folders next = filter (\<lambda>f. folder_id f \<notin> subtreeIds (folders prev) fid) (folders prev)"
      "selectedFolderId app' =
         (if truthy (folder_parentId folderToDelete) then folder_parentId folderToDelete
          else if folders next \<noteq> [] then Some (folder_id (hd (folders next)))
          else None)"
      "case folder_parentId folderToDelete of
         None \<Rightarrow> True
       | Some pid \<Rightarrow> pid \<notin> subtreeIds (folders prev) fid"
    by blast
  from r(5) assms(7) have "pid \<notin> subtreeIds (folders prev) fid" by simp
  with assms(9,10) r(3) have "parent \<in> set (folders next)" by simp
  moreover from r(4) assms(7,8) have "selectedFolderId app' = Some pid" by (simp add: truthy_def)
  ultimately show ?thesis using r(1,2) by blast
qed

text \<open>
  Claim C9, at the folders Drafts (root), Places (inside World), World (root) in this
  order, the order the stable sort by \<open>sortOrder\<close> of the auto-selection effect leaves
  after World was moved below Drafts, with Drafts selected. Deleting Drafts selects the
  first folder left in the collection, Places, which is a subfolder of World, although the
  root folder World is still there.
\<close>

theorem C9_deleteFolder_selects_nested_folder:
  "handleDeleteFolder ''f2'' nestedFirst =
     Some \<lparr>projectState = Some
            \<lparr>folders =
               [\<lparr>folder_id = ''f3'', folder_name = ''Places'', folder_color = ''#888888'',
                 folder_parentId = Some ''f1'', folder_sortOrder = 0\<rparr>,
                \<lparr>folder_id = ''f1'', folder_name = ''World'', folder_color = ''#888888'',
                 folder_parentId = None, folder_sortOrder = 1\<rparr>],
             articles = [], expandedFolderIds = [], expandedArticleIds = []\<rparr>,
           selectedFolderId = Some ''f3'', newlyCreatedFolderId = None,
           editingArticle = None, selectedArticleId = None, dbCalls = [], timeouts = [], alerts = []\<rparr>"
  by (simp add: handleDeleteFolder_def deleteFolder_loop.simps Set_new_def Set_add_def Set_has_def
        truthy_def articles_deleteImages_def Let_def)

section \<open>Operations on an id that is not in the collection\<close>

text \<open>
  Renaming, deleting and reordering a folder, retitling, saving and reordering an article
  leave the project as it is when the id is absent. \<^verbatim>\<open>handleDeleteArticle\<close> does so
  only when, in addition, no article names the id as its \<open>parentId\<close>: unlike
  \<^verbatim>\<open>handleDeleteFolder\<close> it does not return when the lookup of the id fails, and its
  loop starts from the id all the same.
\<close>

lemma find_absent: "x \<notin> idf ` set xs \<Longrightarrow> find (\<lambda>y. idf y = x) xs = None"
  by (induction xs) auto

lemma map_absent: "x \<notin> idf ` set xs \<Longrightarrow> map (\<lambda>y. if idf y = x then f y else y) xs = xs"
  by (induction xs) auto

lemma handleUpdateFolder_absent:
  "fid \<notin> folder_id ` set (folders p) \<Longrightarrow> handleUpdateFolder fid newName newColor (Some p) = Some p"
  by (simp add: handleUpdateFolder_def map_absent)

lemma handleDeleteFolder_absent:
  "projectState app = Some p \<Longrightarrow> fid \<notin> folder_id ` set (folders p) \<Longrightarrow> handleDeleteFolder fid app = Some app"
  by (simp add: handleDeleteFolder_def find_absent)

lemma handleReorderFolder_absent:
  "fid \<notin> folder_id ` set (folders p) \<Longrightarrow> handleReorderFolder fid dir (Some p) = Inr (Some p)"
  by (simp add: handleReorderFolder_def find_absent)

lemma handleUpdateArticleTitle_absent:
  "aid \<notin> article_id ` set (articles p) \<Longrightarrow> handleUpdateArticleTitle aid newTitle (Some p) = Some p"
  by (simp add: handleUpdateArticleTitle_def map_absent)

lemma handleSaveArticle_absent:
  "projectState app = Some p \<Longrightarrow> article_id updated \<notin> article_id ` set (articles p)
     \<Longrightarrow> projectState (handleSaveArticle updated app) = Some p"
  by (simp add: handleSaveArticle_def map_absent)

lemma handleReorderArticle_absent:
  "aid \<notin> article_id ` set (articles p) \<Longrightarrow> handleReorderArticle aid dir (Some p) = Some p"
  by (simp add: handleReorderArticle_def find_absent)

lemma handleDeleteArticle_absent_childless:
  assumes "projectState app = Some p" and "aid \<notin> article_id ` set (articles p)"
      and "\<forall>a\<in>set (articles p). article_parentId a \<noteq> Some aid"
  shows "\<exists>app'. handleDeleteArticle aid app = Some app' \<and> projectState app' = Some p
              \<and> dbCalls app' = dbCalls app"
proof -
  have ch: "filter (\<lambda>a. article_parentId a = Some aid) (articles p) = []"
    using assms(3) by (simp add: filter_empty_conv)
  have loop: "deleteArticle_loop (articles p) [aid] [aid] [] = Some ([aid], [])"
    by (subst deleteArticle_loop.simps, simp add: ch Let_def, subst deleteArticle_loop.simps, simp)
  have keep: "filter (\<lambda>a. article_id a \<noteq> aid) (articles p) = articles p"
    using assms(2) by (auto simp: filter_id_conv)
  have "Set_new [aid] = [aid]" by (simp add: Set_new_def Set_add_def Set_has_def)
  then show ?thesis
    using assms(1) loop keep
    by (simp add: handleDeleteArticle_def find_absent[OF assms(2)] Let_def Set_has_def
          articles_deleteImages_def)
qed

text \<open>
  Claim C8, at \<^verbatim>\<open>handleDeleteArticle\<close> with the id \<open>a9\<close>, which no article of the
  project has, while the article \<open>a2\<close> names \<open>a9\<close> as its \<open>parentId\<close>. The
  handler returns without raising, but the resulting project is not the input project:
  \<open>a2\<close> has been removed and \<^verbatim>\<open>deleteImage\<close> has been called for its image.
\<close>

theorem C8_deleteArticle_absent_id_removes_children:
  "handleDeleteArticle ''a9'' orphanArticle =
     Some \<lparr>projectState = Some
            \<lparr>folders =
               [\<lparr>folder_id = ''f1'', folder_name = ''World'', folder_color = ''#888888'',
                 folder_parentId = None, folder_sortOrder = 0\<rparr>],
             articles = [], expandedFolderIds = [], expandedArticleIds = []\<rparr>,
           selectedFolderId = Some ''f1'', newlyCreatedFolderId = None,
           editingArticle = None, selectedArticleId = None, dbCalls = [DeleteImage ''i1''],
           timeouts = [], alerts = []\<rparr>"
  by (simp add: handleDeleteArticle_def deleteArticle_loop.simps Set_new_def Set_add_def Set_has_def
        truthy_def articles_deleteImages_def Let_def)

section \<open>Reordering among siblings\<close>

text \<open>
  Facts about \<open>findIndex\<close> and about neighbours in a list sorted by a key without
  repetitions, then the exchange of the keys of two neighbours followed by the exchange in
  the other direction, for any kind of node: \<open>idf\<close> reads the id, \<open>key\<close> the sort key,
  \<open>grp\<close> what siblings have in common, and \<open>upd\<close> writes the sort key.
\<close>

lemma findIndex_first:
  "x \<in> set s \<Longrightarrow> P x \<Longrightarrow> \<exists>j. findIndex P s = int j \<and> j < length s \<and> P (s ! j) \<and> (\<forall>k<j. \<not> P (s ! k))"
proof (induction s)
  case Nil
  then show ?case by simp
next
  case (Cons a s)
  show ?case
  proof (cases "P a")
    case True
    then show ?thesis by (intro exI[of _ 0]) simp
  next
    case False
    with Cons obtain j where j: "findIndex P s = int j" "j < length s" "P (s ! j)" "\<forall>k<j. \<not> P (s ! k)"
      by auto
    have "\<forall>k<Suc j. \<not> P ((a # s) ! k)"
      using False j(4) by (auto simp: less_Suc_eq_0_disj)
    with False j show ?thesis
      by (intro exI[of _ "Suc j"]) (simp add: Let_def)
  qed
qed

lemma findIndex_by_id:
  assumes "distinct (map idf s)" and "x \<in> set s"
  shows "\<exists>j. findIndex (\<lambda>y. idf y = idf x) s = int j \<and> j < length s \<and> s ! j = x"
proof -
  from findIndex_first[of x s "\<lambda>y. idf y = idf x"] assms(2)
  obtain j where j: "findIndex (\<lambda>y. idf y = idf x) s = int j" "j < length s" "idf (s ! j) = idf x"
    by auto
  have "inj_on idf (set s)" using assms(1) by (simp add: distinct_map)
  moreover have "s ! j \<in> set s" using j(2) by simp
  ultimately have "s ! j = x" using j(3) assms(2) by (auto dest: inj_onD)
  with j show ?thesis by blast
qed

lemma findIndex_hd: "s \<noteq> [] \<Longrightarrow> P (hd s) \<Longrightarrow> findIndex P s = 0"
  by (cases s) auto

lemma findIndex_last:
  assumes "distinct (map idf s)" and "s \<noteq> []"
  shows "findIndex (\<lambda>y. idf y = idf (last s)) s = int (length s) - 1"
proof -
  from findIndex_by_id[OF assms(1), of "last s"] assms(2)
  obtain j where j: "findIndex (\<lambda>y. idf y = idf (last s)) s = int j" "j < length s" "s ! j = last s"
    by auto
  have "distinct s" using assms(1) by (simp add: distinct_map)
  moreover have "last s = s ! (length s - 1)" using assms(2) by (simp add: last_conv_nth)
  ultimately have "j = length s - 1"
    using j(2,3) assms(2) by (simp add: nth_eq_iff_index_eq)
  with j(1) assms(2) show ?thesis by (cases s) auto
qed

lemma distinct_map_sort_key: "distinct (map f (sort_key k ys)) = distinct (map f ys)"
proof -
  have "mset (map f (sort_key k ys)) = mset (map f ys)" by simp
  then show ?thesis by (rule mset_eq_imp_distinct_iff)
qed

lemma find_map_same: "(\<And>x. P (g x) = P x) \<Longrightarrow> find P (map g xs) = map_option g (find P xs)"
  by (induction xs) auto

lemma filter_map_same: "(\<And>x. P (g x) = P x) \<Longrightarrow> filter P (map g xs) = map g (filter P xs)"
  by (induction xs) auto

lemma sorted_keys_neighbour_below:
  fixes key :: "'a \<Rightarrow> int"
  assumes "sorted (map key s)" and "distinct (map key s)" and "Suc j < length s"
  shows "key (s ! j) < key (s ! Suc j)"
    and "\<forall>z\<in>set s. \<not> (key (s ! j) < key z \<and> key z < key (s ! Suc j))"
proof -
  have strict: "sorted_wrt (<) (map key s)" using assms(1,2) by (simp add: strict_sorted_iff)
  from sorted_wrt_nth_less[OF strict, of j "Suc j"] assms(3)
  show "key (s ! j) < key (s ! Suc j)" by simp
  show "\<forall>z\<in>set s. \<not> (key (s ! j) < key z \<and> key z < key (s ! Suc j))"
  proof
    fix z assume "z \<in> set s"
    then obtain k where k: "k < length s" "z = s ! k" by (auto simp: in_set_conv_nth)
    show "\<not> (key (s ! j) < key z \<and> key z < key (s ! Suc j))"
    proof (cases "k \<le> j")
      case True
      from sorted_nth_mono[OF assms(1), of k j] True assms(3) k
      have "key z \<le> key (s ! j)" by simp
      then show ?thesis by simp
    next
      case False
      then have "Suc j \<le> k" by simp
      from sorted_nth_mono[OF assms(1), of "Suc j" k] this k
      have "key (s ! Suc j) \<le> key z" by simp
      then show ?thesis by simp
    qed
  qed
qed

lemma sorted_keys_neighbour_above:
  fixes key :: "'a \<Rightarrow> int"
  assumes "sorted (map key s)" and "distinct (map key s)"
      and "j < length s" and "t \<in> set s" and "key (s ! j) < key t"
      and "\<forall>z\<in>set s. \<not> (key (s ! j) < key z \<and> key z < key t)"
  shows "Suc j < length s \<and> s ! Suc j = t"
proof -
  from assms(4) obtain k where k: "k < length s" "t = s ! k" by (auto simp: in_set_conv_nth)
  have "j < k"
  proof (rule ccontr)
    assume "\<not> j < k"
    then have "k \<le> j" by simp
    from sorted_nth_mono[OF assms(1), of k j] this assms(3) k
    have "key t \<le> key (s ! j)" by simp
    with assms(5) show False by simp
  qed
  then have len: "Suc j < length s" using k(1) by simp
  from sorted_keys_neighbour_below[OF assms(1,2) len]
  have lt: "key (s ! j) < key (s ! Suc j)" by simp
  from sorted_nth_mono[OF assms(1), of "Suc j" k] \<open>j < k\<close> k
  have le: "key (s ! Suc j) \<le> key t" by simp
  have "s ! Suc j \<in> set s" using len by simp
  with assms(6) lt have "\<not> key (s ! Suc j) < key t" by blast
  with le have eq: "key (s ! Suc j) = key t" by simp
  have "inj_on key (set s)" using assms(2) by (simp add: distinct_map)
  with eq \<open>s ! Suc j \<in> set s\<close> assms(4) have "s ! Suc j = t" by (auto dest: inj_onD)
  with len show ?thesis by simp
qed


lemma swap_up_then_down:
  fixes idf :: "'a \<Rightarrow> string" and key :: "'a \<Rightarrow> int" and grp :: "'a \<Rightarrow> 'g"
    and upd :: "int \<Rightarrow> 'a \<Rightarrow> 'a"
  assumes U1: "\<And>k x. key (upd k x) = k"
      and U2: "\<And>k x. idf (upd k x) = idf x"
      and U3: "\<And>k x. grp (upd k x) = grp x"
      and U4: "\<And>k k' x. upd k (upd k' x) = upd k x"
      and U5: "\<And>x. upd (key x) x = x"
      and D: "distinct (map idf xs)"
      and K: "distinct (map key (filter (\<lambda>x. grp x = grp m) xs))"
      and F: "find (\<lambda>x. idf x = nid) xs = Some m"
      and I: "0 < findIndex (\<lambda>x. idf x = nid) (sort_key key (filter (\<lambda>x. grp x = grp m) xs))"
  shows "\<exists>t. at_index (sort_key key (filter (\<lambda>x. grp x = grp m) xs))
                (findIndex (\<lambda>x. idf x = nid) (sort_key key (filter (\<lambda>x. grp x = grp m) xs)) - 1) = Some t
           \<and> key t < key m
           \<and> (let xs' = map (\<lambda>f. if idf f = idf m then upd (key t) f
                                 else if idf f = idf t then upd (key m) f else f) xs;
                   m' = upd (key t) m;
                   t' = upd (key m) t;
                   s' = sort_key key (filter (\<lambda>x. grp x = grp m') xs');
                   i' = findIndex (\<lambda>x. idf x = nid) s'
               in find (\<lambda>x. idf x = nid) xs' = Some m'
                \<and> i' \<noteq> -1 \<and> i' < int (length s') - 1
                \<and> at_index s' (i' + 1) = Some t'
                \<and> map (\<lambda>f. if idf f = idf m' then upd (key t') f
                             else if idf f = idf t' then upd (key m') f else f) xs' = xs
                \<and> xs' \<noteq> xs)"
proof -
  let ?sib = "filter (\<lambda>x. grp x = grp m) xs"
  let ?s = "sort_key key ?sib"
  let ?i = "findIndex (\<lambda>x. idf x = nid) ?s"
  have m_xs: "m \<in> set xs" and m_id: "idf m = nid"
    using F by (auto simp: find_Some_iff)
  have m_s: "m \<in> set ?s" using m_xs by simp
  have inj_id: "inj_on idf (set xs)" using D by (simp add: distinct_map)
  have Ds: "distinct (map idf ?s)"
    using D by (simp add: distinct_map_sort_key distinct_map_filter)
  have Ks: "distinct (map key ?s)" using K by (simp add: distinct_map_sort_key)
  have Ss: "sorted (map key ?s)" by (rule sorted_sort_key)
  from findIndex_by_id[OF Ds m_s] obtain j where j: "?i = int j" "j < length ?s" "?s ! j = m"
    unfolding m_id by blast
  from I j(1) obtain j0 where j0: "j = Suc j0" by (cases j) auto
  define t where "t = ?s ! j0"
  have "j0 < length ?s" using j(2) j0 by simp
  then have t_s: "t \<in> set ?s" unfolding t_def by (rule nth_mem)
  then have t_sib: "t \<in> set ?sib" by simp
  then have t_xs: "t \<in> set xs" and t_grp: "grp t = grp m" by simp_all
  have at: "at_index ?s (?i - 1) = Some t"
    using j j0 by (simp add: at_index_def t_def)
  from sorted_keys_neighbour_below[OF Ss Ks, of j0] j j0
  have lt: "key t < key m"
    and btw: "\<forall>z\<in>set ?s. \<not> (key t < key z \<and> key z < key m)"
    by (simp_all add: t_def)
  have t_id: "idf t \<noteq> idf m"
  proof
    assume "idf t = idf m"
    with inj_id t_xs m_xs have "t = m" by (auto dest: inj_onD)
    with lt show False by simp
  qed
  have only_m: "\<And>f. f \<in> set xs \<Longrightarrow> idf f = idf m \<Longrightarrow> f = m"
    using inj_id m_xs by (auto dest: inj_onD)
  have only_t: "\<And>f. f \<in> set xs \<Longrightarrow> idf f = idf t \<Longrightarrow> f = t"
    using inj_id t_xs by (auto dest: inj_onD)
  let ?g = "\<lambda>f. if idf f = idf m then upd (key t) f else if idf f = idf t then upd (key m) f else f"
  let ?xs' = "map ?g xs"
  let ?m' = "upd (key t) m"
  let ?t' = "upd (key m) t"
  let ?s' = "sort_key key (filter (\<lambda>x. grp x = grp ?m') ?xs')"
  let ?i' = "findIndex (\<lambda>x. idf x = nid) ?s'"
  let ?g' = "\<lambda>f. if idf f = idf ?m' then upd (key ?t') f else if idf f = idf ?t' then upd (key ?m') f else f"
  have g_id: "\<And>x. idf (?g x) = idf x" by (simp add: U2)
  have g_grp: "\<And>x. grp (?g x) = grp x" by (simp add: U3)
  have g_m: "?g m = ?m'" by simp
  have g_t: "?g t = ?t'" using t_id by simp
  have g_key: "\<And>x. x \<in> set xs \<Longrightarrow>
                 key (?g x) = (if x = m then key t else if x = t then key m else key x)"
    using only_m only_t t_id by (auto simp: U1)
  have find': "find (\<lambda>x. idf x = nid) ?xs' = Some ?m'"
    using find_map_same[of "\<lambda>x. idf x = nid" ?g xs] F g_id by simp
  have sib': "filter (\<lambda>x. grp x = grp ?m') ?xs' = map ?g ?sib"
    using filter_map_same[of "\<lambda>x. grp x = grp m" ?g xs] g_grp by (simp add: U3)
  have set_s': "set ?s' = ?g ` set ?sib" unfolding sib' by simp
  have Ds': "distinct (map idf ?s')"
  proof -
    have eq: "map idf (map ?g ?sib) = map idf ?sib" using g_id by simp
    have "distinct (map idf ?sib)" using D by (rule distinct_map_filter)
    then have "distinct (map idf (map ?g ?sib))" unfolding eq .
    then show ?thesis unfolding sib' distinct_map_sort_key .
  qed
  have inj_key: "inj_on key (set ?sib)" and dist_sib: "distinct ?sib"
    using K by (simp_all add: distinct_map)
  have m_sib: "m \<in> set ?sib" using m_xs by simp
  have Ks': "distinct (map key ?s')"
  proof -
    have "inj_on (\<lambda>x. key (?g x)) (set ?sib)"
    proof (rule inj_onI)
      fix x y assume x: "x \<in> set ?sib" and y: "y \<in> set ?sib" and e: "key (?g x) = key (?g y)"
      have kx: "key (?g x) = (if x = m then key t else if x = t then key m else key x)"
        using x by (intro g_key) simp
      have ky: "key (?g y) = (if y = m then key t else if y = t then key m else key y)"
        using y by (intro g_key) simp
      have ix: "key x = key m \<Longrightarrow> x = m" "key x = key t \<Longrightarrow> x = t"
        using inj_key x m_sib t_sib by (auto dest: inj_onD)
      have iy: "key y = key m \<Longrightarrow> y = m" "key y = key t \<Longrightarrow> y = t"
        using inj_key y m_sib t_sib by (auto dest: inj_onD)
      have ixy: "key x = key y \<Longrightarrow> x = y"
        using inj_key x y by (auto dest: inj_onD)
      show "x = y"
        using e lt ix iy ixy unfolding kx ky by (auto split: if_splits)
    qed
    then have "distinct (map (\<lambda>x. key (?g x)) ?sib)"
      using dist_sib by (simp add: distinct_map)
    then have "distinct (map key (map ?g ?sib))" by (simp add: comp_def)
    then show ?thesis unfolding sib' distinct_map_sort_key .
  qed
  have Ss': "sorted (map key ?s')" by (rule sorted_sort_key)
  have m'_s': "?m' \<in> set ?s'"
    unfolding set_s' by (rule image_eqI[where x = m]) (simp_all add: m_xs)
  have t'_s': "?t' \<in> set ?s'"
    unfolding set_s' by (rule image_eqI[where x = t]) (simp_all add: t_id t_xs t_grp)
  have m'_id: "idf ?m' = nid" using m_id by (simp add: U2)
  from findIndex_by_id[OF Ds' m'_s'] obtain j' where j': "?i' = int j'" "j' < length ?s'" "?s' ! j' = ?m'"
    unfolding m'_id by blast
  have btw': "\<forall>z\<in>set ?s'. \<not> (key (?s' ! j') < key z \<and> key z < key ?t')"
  proof
    fix z' assume "z' \<in> set ?s'"
    then obtain z where z: "z \<in> set ?sib" and z': "z' = ?g z" unfolding set_s' by blast
    have kz: "key z' = (if z = m then key t else if z = t then key m else key z)"
      unfolding z' using z by (intro g_key) simp
    have "z \<in> set ?s" using z by simp
    with btw have "\<not> (key t < key z \<and> key z < key m)" by blast
    then show "\<not> (key (?s' ! j') < key z' \<and> key z' < key ?t')"
      unfolding j'(3) kz by (auto simp: U1)
  qed
  have "key (?s' ! j') < key ?t'" unfolding j'(3) using lt by (simp add: U1)
  from sorted_keys_neighbour_above[OF Ss' Ks' j'(2) t'_s' this btw']
  have nxt: "Suc j' < length ?s'" "?s' ! Suc j' = ?t'" by simp_all
  have idx: "?i' \<noteq> -1" "?i' < int (length ?s') - 1" using j'(1) nxt(1) by simp_all
  have at': "at_index ?s' (?i' + 1) = Some ?t'"
    using j'(1) nxt by (simp add: at_index_def nat_add_distrib)
  have undo: "map ?g' ?xs' = xs"
  proof -
    have "\<And>f. f \<in> set xs \<Longrightarrow> ?g' (?g f) = f"
    proof -
      fix f assume f: "f \<in> set xs"
      show "?g' (?g f) = f"
      proof (cases "idf f = idf m")
        case True
        with only_m[OF f] have "f = m" by simp
        then show ?thesis by (simp add: U1 U2 U4 U5)
      next
        case False
        show ?thesis
        proof (cases "idf f = idf t")
          case True
          with only_t[OF f] have "f = t" by simp
          then show ?thesis using t_id by (simp add: U1 U2 U4 U5)
        next
          case False
          with \<open>idf f \<noteq> idf m\<close> show ?thesis by (simp add: U2)
        qed
      qed
    qed
    then have "map (\<lambda>f. ?g' (?g f)) xs = xs" by (intro map_idI) 
    then show ?thesis by (simp add: comp_def)
  qed
  have changed: "?xs' \<noteq> xs"
  proof
    assume "?xs' = xs"
    then have "map ?g xs = map (\<lambda>x. x) xs" by simp
    then have "\<forall>x\<in>set xs. ?g x = x" unfolding map_eq_conv .
    then have "?g m = m" using m_xs by blast
    then have "upd (key t) m = m" by simp
    then have "key (upd (key t) m) = key m" by simp
    with lt show False by (simp add: U1)
  qed
  show ?thesis
    unfolding Let_def
    by (intro exI[of _ t] conjI at lt find' idx at' undo changed)
qed


lemma findIndex_pos: "x \<in> set s \<Longrightarrow> P x \<Longrightarrow> \<not> P (hd s) \<Longrightarrow> 0 < findIndex P s"
  by (cases s) (auto simp: Let_def dest: findIndex_first[where P = P])

lemma handleReorderFolder_up_down:
  assumes D: "distinct (map folder_id (folders p))"
      and K: "distinct (map folder_sortOrder
                 (filter (\<lambda>f. folder_parentId f = folder_parentId m) (folders p)))"
      and F: "find (\<lambda>f. folder_id f = fid) (folders p) = Some m"
      and H: "folder_id (hd (sort_key folder_sortOrder
                 (filter (\<lambda>f. folder_parentId f = folder_parentId m) (folders p)))) \<noteq> fid"
  shows "\<exists>p'. handleReorderFolder fid Up (Some p) = Inr (Some p') \<and> p' \<noteq> p
             \<and> handleReorderFolder fid Down (Some p') = Inr (Some p)"
proof -
  let ?s = "sort_key folder_sortOrder (filter (\<lambda>f. folder_parentId f = folder_parentId m) (folders p))"
  have m: "m \<in> set (folders p)" "folder_id m = fid" using F by (auto simp: find_Some_iff)
  then have "m \<in> set ?s" by simp
  from findIndex_pos[OF this, of "\<lambda>f. folder_id f = fid"] m(2) H
  have I: "0 < findIndex (\<lambda>f. folder_id f = fid) ?s" by simp
  have U: "\<And>k x. folder_sortOrder (x\<lparr>folder_sortOrder := k\<rparr>) = k"
      "\<And>k x. folder_id (x\<lparr>folder_sortOrder := k\<rparr>) = folder_id x"
      "\<And>k x. folder_parentId (x\<lparr>folder_sortOrder := k\<rparr>) = folder_parentId x"
      "\<And>k k' (x::Folder). x\<lparr>folder_sortOrder := k', folder_sortOrder := k\<rparr> = x\<lparr>folder_sortOrder := k\<rparr>"
      "\<And>x::Folder. x\<lparr>folder_sortOrder := folder_sortOrder x\<rparr> = x"
    by simp_all
  from swap_up_then_down[where idf = folder_id and key = folder_sortOrder and grp = folder_parentId
         and upd = "\<lambda>k f. f\<lparr>folder_sortOrder := k\<rparr>" and xs = "folders p" and m = m and nid = fid,
         OF U D K F I]
  obtain t where at: "at_index ?s (findIndex (\<lambda>f. folder_id f = fid) ?s - 1) = Some t"
    and rest: "let xs' = map (\<lambda>f. if folder_id f = folder_id m then f\<lparr>folder_sortOrder := folder_sortOrder t\<rparr>
                                 else if folder_id f = folder_id t then f\<lparr>folder_sortOrder := folder_sortOrder m\<rparr>
                                 else f) (folders p);
                   m' = m\<lparr>folder_sortOrder := folder_sortOrder t\<rparr>;
                   t' = t\<lparr>folder_sortOrder := folder_sortOrder m\<rparr>;
                   s' = sort_key folder_sortOrder (filter (\<lambda>x. folder_parentId x = folder_parentId m') xs');
                   i' = findIndex (\<lambda>x. folder_id x = fid) s'
               in find (\<lambda>x. folder_id x = fid) xs' = Some m'
                \<and> i' \<noteq> -1 \<and> i' < int (length s') - 1
                \<and> at_index s' (i' + 1) = Some t'
                \<and> map (\<lambda>f. if folder_id f = folder_id m' then f\<lparr>folder_sortOrder := folder_sortOrder t'\<rparr>
                             else if folder_id f = folder_id t' then f\<lparr>folder_sortOrder := folder_sortOrder m'\<rparr>
                             else f) xs' = folders p
                \<and> xs' \<noteq> folders p"
    by blast
  let ?xs' = "map (\<lambda>f. if folder_id f = folder_id m then f\<lparr>folder_sortOrder := folder_sortOrder t\<rparr>
                       else if folder_id f = folder_id t then f\<lparr>folder_sortOrder := folder_sortOrder m\<rparr>
                       else f) (folders p)"
  let ?p' = "p\<lparr>folders := ?xs'\<rparr>"
  have up: "handleReorderFolder fid Up (Some p) = Inr (Some ?p')"
    using F I at by (simp add: handleReorderFolder_def Let_def reorderFolder_swap_def)
  have ne: "?p' \<noteq> p"
  proof
    assume "?p' = p"
    then have "folders ?p' = folders p" by simp
    then have "?xs' = folders p" by simp
    with rest show False by (simp add: Let_def)
  qed
  have down: "handleReorderFolder fid Down (Some ?p') = Inr (Some p)"
    using rest by (simp add: handleReorderFolder_def Let_def reorderFolder_swap_def)
  from up ne down show ?thesis by blast
qed


lemma handleReorderArticle_up_down:
  assumes D: "distinct (map article_id (articles p))"
      and K: "distinct (map article_sortOrder
                 (filter (\<lambda>a. article_parentId a = article_parentId m
                              \<and> article_folderId a = article_folderId m) (articles p)))"
      and F: "find (\<lambda>a. article_id a = aid) (articles p) = Some m"
      and H: "article_id (hd (sort_key article_sortOrder
                 (filter (\<lambda>a. article_parentId a = article_parentId m
                              \<and> article_folderId a = article_folderId m) (articles p)))) \<noteq> aid"
  shows "\<exists>p'. handleReorderArticle aid Up (Some p) = Some p' \<and> p' \<noteq> p
             \<and> handleReorderArticle aid Down (Some p') = Some p"
proof -
  let ?s = "sort_key article_sortOrder
              (filter (\<lambda>a. article_parentId a = article_parentId m
                           \<and> article_folderId a = article_folderId m) (articles p))"
  have m: "m \<in> set (articles p)" "article_id m = aid" using F by (auto simp: find_Some_iff)
  then have "m \<in> set ?s" by simp
  from findIndex_pos[OF this, of "\<lambda>a. article_id a = aid"] m(2) H
  have I: "0 < findIndex (\<lambda>a. article_id a = aid) ?s" by simp
  have K': "distinct (map article_sortOrder
              (filter (\<lambda>x. (article_parentId x, article_folderId x)
                           = (article_parentId m, article_folderId m)) (articles p)))"
    using K by simp
  have I': "0 < findIndex (\<lambda>a. article_id a = aid)
                   (sort_key article_sortOrder
                      (filter (\<lambda>x. (article_parentId x, article_folderId x)
                                   = (article_parentId m, article_folderId m)) (articles p)))"
    using I by simp
  have U: "\<And>k x. article_sortOrder (x\<lparr>article_sortOrder := k\<rparr>) = k"
      "\<And>k x. article_id (x\<lparr>article_sortOrder := k\<rparr>) = article_id x"
      "\<And>k x. (article_parentId (x\<lparr>article_sortOrder := k\<rparr>), article_folderId (x\<lparr>article_sortOrder := k\<rparr>))
                = (article_parentId x, article_folderId x)"
      "\<And>k k' (x::Article). x\<lparr>article_sortOrder := k', article_sortOrder := k\<rparr> = x\<lparr>article_sortOrder := k\<rparr>"
      "\<And>x::Article. x\<lparr>article_sortOrder := article_sortOrder x\<rparr> = x"
    by simp_all
  note G = swap_up_then_down[where idf = article_id and key = article_sortOrder
         and grp = "\<lambda>a. (article_parentId a, article_folderId a)"
         and upd = "\<lambda>k a. a\<lparr>article_sortOrder := k\<rparr>" and xs = "articles p" and m = m and nid = aid,
         OF U D K' F I', unfolded prod.inject]
  from G obtain t where at: "at_index ?s (findIndex (\<lambda>a. article_id a = aid) ?s - 1) = Some t"
    and rest: "let xs' = map (\<lambda>f. if article_id f = article_id m then f\<lparr>article_sortOrder := article_sortOrder t\<rparr>
                                 else if article_id f = article_id t then f\<lparr>article_sortOrder := article_sortOrder m\<rparr>
                                 else f) (articles p);
                   m' = m\<lparr>article_sortOrder := article_sortOrder t\<rparr>;
                   t' = t\<lparr>article_sortOrder := article_sortOrder m\<rparr>;
                   s' = sort_key article_sortOrder
                          (filter (\<lambda>x. article_parentId x = article_parentId m'
                                       \<and> article_folderId x = article_folderId m') xs');
                   i' = findIndex (\<lambda>x. article_id x = aid) s'
               in find (\<lambda>x. article_id x = aid) xs' = Some m'
                \<and> i' \<noteq> -1 \<and> i' < int (length s') - 1
                \<and> at_index s' (i' + 1) = Some t'
                \<and> map (\<lambda>f. if article_id f = article_id m' then f\<lparr>article_sortOrder := article_sortOrder t'\<rparr>
                             else if article_id f = article_id t' then f\<lparr>article_sortOrder := article_sortOrder m'\<rparr>
                             else f) xs' = articles p
                \<and> xs' \<noteq> articles p"
    by blast
  let ?xs' = "map (\<lambda>f. if article_id f = article_id m then f\<lparr>article_sortOrder := article_sortOrder t\<rparr>
                       else if article_id f = article_id t then f\<lparr>article_sortOrder := article_sortOrder m\<rparr>
                       else f) (articles p)"
  let ?p' = "p\<lparr>articles := ?xs'\<rparr>"
  have up: "handleReorderArticle aid Up (Some p) = Some ?p'"
    using F I at by (simp add: handleReorderArticle_def Let_def)
  have ne: "?p' \<noteq> p"
  proof
    assume "?p' = p"
    then have "articles ?p' = articles p" by simp
    then have "?xs' = articles p" by simp
    with rest show False by (simp add: Let_def)
  qed
  have down: "handleReorderArticle aid Down (Some ?p') = Some p"
    using rest by (simp add: handleReorderArticle_def Let_def)
  from up ne down show ?thesis by blast
qed


lemma in_set_nonempty: "x \<in> set s \<Longrightarrow> s \<noteq> []"
  by auto

lemma handleReorderFolder_first_up:
  assumes F: "find (\<lambda>f. folder_id f = fid) (folders p) = Some m"
      and H: "folder_id (hd (sort_key folder_sortOrder
                 (filter (\<lambda>f. folder_parentId f = folder_parentId m) (folders p)))) = fid"
  shows "handleReorderFolder fid Up (Some p) = Inr (Some p)"
proof -
  let ?s = "sort_key folder_sortOrder (filter (\<lambda>f. folder_parentId f = folder_parentId m) (folders p))"
  have "m \<in> set (folders p)" using F by (auto simp: find_Some_iff)
  then have "m \<in> set ?s" by simp
  then have "?s \<noteq> []" by (rule in_set_nonempty)
  from findIndex_hd[OF this, of "\<lambda>f. folder_id f = fid"] H
  have "findIndex (\<lambda>f. folder_id f = fid) ?s = 0" by simp
  then show ?thesis using F by (simp add: handleReorderFolder_def Let_def)
qed

lemma handleReorderFolder_last_down:
  assumes D: "distinct (map folder_id (folders p))"
      and F: "find (\<lambda>f. folder_id f = fid) (folders p) = Some m"
      and H: "folder_id (last (sort_key folder_sortOrder
                 (filter (\<lambda>f. folder_parentId f = folder_parentId m) (folders p)))) = fid"
  shows "handleReorderFolder fid Down (Some p) = Inr (Some p)"
proof -
  let ?s = "sort_key folder_sortOrder (filter (\<lambda>f. folder_parentId f = folder_parentId m) (folders p))"
  have "m \<in> set (folders p)" using F by (auto simp: find_Some_iff)
  then have "m \<in> set ?s" by simp
  then have ne: "?s \<noteq> []" by (rule in_set_nonempty)
  have Ds: "distinct (map folder_id ?s)"
    using D by (simp add: distinct_map_sort_key distinct_map_filter)
  from findIndex_last[OF Ds ne] H
  have "findIndex (\<lambda>f. folder_id f = fid) ?s = int (length ?s) - 1" by simp
  then show ?thesis using F by (simp add: handleReorderFolder_def Let_def)
qed

lemma handleReorderArticle_first_up:
  assumes F: "find (\<lambda>a. article_id a = aid) (articles p) = Some m"
      and H: "article_id (hd (sort_key article_sortOrder
                 (filter (\<lambda>a. article_parentId a = article_parentId m
                              \<and> article_folderId a = article_folderId m) (articles p)))) = aid"
  shows "handleReorderArticle aid Up (Some p) = Some p"
proof -
  let ?s = "sort_key article_sortOrder
              (filter (\<lambda>a. article_parentId a = article_parentId m
                           \<and> article_folderId a = article_folderId m) (articles p))"
  have "m \<in> set (articles p)" using F by (auto simp: find_Some_iff)
  then have "m \<in> set ?s" by simp
  then have "?s \<noteq> []" by (rule in_set_nonempty)
  from findIndex_hd[OF this, of "\<lambda>a. article_id a = aid"] H
  have "findIndex (\<lambda>a. article_id a = aid) ?s = 0" by simp
  then show ?thesis using F by (simp add: handleReorderArticle_def Let_def)
qed

lemma handleReorderArticle_last_down:
  assumes D: "distinct (map article_id (articles p))"
      and F: "find (\<lambda>a. article_id a = aid) (articles p) = Some m"
      and H: "article_id (last (sort_key article_sortOrder
                 (filter (\<lambda>a. article_parentId a = article_parentId m
                              \<and> article_folderId a = article_folderId m) (articles p)))) = aid"
  shows "handleReorderArticle aid Down (Some p) = Some p"
proof -
  let ?s = "sort_key article_sortOrder
              (filter (\<lambda>a. article_parentId a = article_parentId m
                           \<and> article_folderId a = article_folderId m) (articles p))"
  have "m \<in> set (articles p)" using F by (auto simp: find_Some_iff)
  then have "m \<in> set ?s" by simp
  then have ne: "?s \<noteq> []" by (rule in_set_nonempty)
  have Ds: "distinct (map article_id ?s)"
    using D by (simp add: distinct_map_sort_key distinct_map_filter)
  from findIndex_last[OF Ds ne] H
  have "findIndex (\<lambda>a. article_id a = aid) ?s = int (length ?s) - 1" by simp
  then show ?thesis using F by (simp add: handleReorderArticle_def Let_def)
qed

text \<open>
  Claim C5. The siblings of a node are the nodes the handler filters (same \<open>parentId\<close>,
  for articles also same \<open>folderId\<close>), sorted by \<open>sortOrder\<close>. If the node with the
  given id is the first of them, \<^verbatim>\<open>handleReorderFolder\<close> and
  \<^verbatim>\<open>handleReorderArticle\<close> with direction up return the state unchanged; if it is
  the last of them, and ids are unique in the collection (section 3 of the specification),
  they return the state unchanged with direction down.
\<close>

theorem C5_boundary_reorder_noop:
  "(find (\<lambda>f. folder_id f = fu) (folders p) = Some mu
      \<and> folder_id (hd (sort_key folder_sortOrder
            (filter (\<lambda>f. folder_parentId f = folder_parentId mu) (folders p)))) = fu
     \<longrightarrow> handleReorderFolder fu Up (Some p) = Inr (Some p))
 \<and> (distinct (map folder_id (folders p))
      \<and> find (\<lambda>f. folder_id f = fd) (folders p) = Some md
      \<and> folder_id (last (sort_key folder_sortOrder
            (filter (\<lambda>f. folder_parentId f = folder_parentId md) (folders p)))) = fd
     \<longrightarrow> handleReorderFolder fd Down (Some p) = Inr (Some p))
 \<and> (find (\<lambda>a. article_id a = au) (articles p) = Some nu
      \<and> article_id (hd (sort_key article_sortOrder
            (filter (\<lambda>a. article_parentId a = article_parentId nu
                         \<and> article_folderId a = article_folderId nu) (articles p)))) = au
     \<longrightarrow> handleReorderArticle au Up (Some p) = Some p)
 \<and> (distinct (map article_id (articles p))
      \<and> find (\<lambda>a. article_id a = ad) (articles p) = Some nd
      \<and> article_id (last (sort_key article_sortOrder
            (filter (\<lambda>a. article_parentId a = article_parentId nd
                         \<and> article_folderId a = article_folderId nd) (articles p)))) = ad
     \<longrightarrow> handleReorderArticle ad Down (Some p) = Some p)"
  using handleReorderFolder_first_up[of fu p mu] handleReorderFolder_last_down[of p fd md]
        handleReorderArticle_first_up[of au p nu] handleReorderArticle_last_down[of p ad nd]
  by blast

theorem C5_boundary_reorder_noop_witness:
  "find (\<lambda>f. folder_id f = ''f1'') (folders atlasProject) = Some (folders atlasProject ! 0)
   \<and> folder_id (hd (sort_key folder_sortOrder
         (filter (\<lambda>f. folder_parentId f = None) (folders atlasProject)))) = ''f1''
   \<and> handleReorderFolder ''f1'' Up (Some atlasProject) = Inr (Some atlasProject)
   \<and> distinct (map folder_id (folders atlasProject))
   \<and> folder_id (last (sort_key folder_sortOrder
         (filter (\<lambda>f. folder_parentId f = None) (folders atlasProject)))) = ''f2''
   \<and> handleReorderFolder ''f2'' Down (Some atlasProject) = Inr (Some atlasProject)
   \<and> article_id (hd (sort_key article_sortOrder
         (filter (\<lambda>a. article_parentId a = None \<and> article_folderId a = ''f3'')
                 (articles atlasProject)))) = ''a1''
   \<and> handleReorderArticle ''a1'' Up (Some atlasProject) = Some atlasProject
   \<and> distinct (map article_id (articles atlasProject))
   \<and> article_id (last (sort_key article_sortOrder
         (filter (\<lambda>a. article_parentId a = None \<and> article_folderId a = ''f3'')
                 (articles atlasProject)))) = ''a4''
   \<and> handleReorderArticle ''a4'' Down (Some atlasProject) = Some atlasProject"
  using C5_boundary_reorder_noop[where p = atlasProject
          and fu = "''f1''" and mu = "folders atlasProject ! 0"
          and fd = "''f2''" and md = "folders atlasProject ! 1"
          and au = "''a1''" and nu = "articles atlasProject ! 0"
          and ad = "''a4''" and nd = "articles atlasProject ! 3"]
  by simp

text \<open>
  Claim C4 as stated fails at a node that is the first of its siblings: moving the root
  folder World up is a no-op, and moving it down afterwards exchanges it with Drafts, so
  the order of the pair is not the original one.
\<close>

theorem C4_counterexample:
  "handleReorderFolder ''f1'' Up (Some atlasProject) = Inr (Some atlasProject)
   \<and> handleReorderFolder ''f1'' Down (Some atlasProject) =
       Inr (Some (atlasProject\<lparr>folders :=
         [\<lparr>folder_id = ''f1'', folder_name = ''World'', folder_color = ''#888888'',
           folder_parentId = None, folder_sortOrder = 1\<rparr>,
          \<lparr>folder_id = ''f2'', folder_name = ''Drafts'', folder_color = ''#888888'',
           folder_parentId = None, folder_sortOrder = 0\<rparr>,
          \<lparr>folder_id = ''f3'', folder_name = ''Places'', folder_color = ''#888888'',
           folder_parentId = Some ''f1'', folder_sortOrder = 0\<rparr>,
          \<lparr>folder_id = ''f4'', folder_name = ''Cities'', folder_color = ''#888888'',
           folder_parentId = Some ''f3'', folder_sortOrder = 0\<rparr>]\<rparr>))"
  by (simp add: handleReorderFolder_def reorderFolder_swap_def at_index_def Let_def)

text \<open>
  Claim C4, amended. Take a project in which ids are unique and the siblings of the node
  have pairwise different \<open>sortOrder\<close>s (the invariants of section 3 of the
  specification), and a node that is not the first of its siblings, so that moving it up
  exchanges it with a sibling. Then \<^verbatim>\<open>handleReorderFolder\<close> up changes the state, and
  \<^verbatim>\<open>handleReorderFolder\<close> down on the result gives back the original state, and with
  it the original order of the pair; the same for \<^verbatim>\<open>handleReorderArticle\<close>.
\<close>

theorem C4_reorder_up_then_down:
  "(distinct (map folder_id (folders p))
      \<and> find (\<lambda>f. folder_id f = fid) (folders p) = Some m
      \<and> distinct (map folder_sortOrder
            (filter (\<lambda>f. folder_parentId f = folder_parentId m) (folders p)))
      \<and> folder_id (hd (sort_key folder_sortOrder
            (filter (\<lambda>f. folder_parentId f = folder_parentId m) (folders p)))) \<noteq> fid
     \<longrightarrow> (\<exists>p'. handleReorderFolder fid Up (Some p) = Inr (Some p') \<and> p' \<noteq> p
              \<and> handleReorderFolder fid Down (Some p') = Inr (Some p)))
 \<and> (distinct (map article_id (articles p))
      \<and> find (\<lambda>a. article_id a = aid) (articles p) = Some n
      \<and> distinct (map article_sortOrder
            (filter (\<lambda>a. article_parentId a = article_parentId n
                         \<and> article_folderId a = article_folderId n) (articles p)))
      \<and> article_id (hd (sort_key article_sortOrder
            (filter (\<lambda>a. article_parentId a = article_parentId n
                         \<and> article_folderId a = article_folderId n) (articles p)))) \<noteq> aid
     \<longrightarrow> (\<exists>p'. handleReorderArticle aid Up (Some p) = Some p' \<and> p' \<noteq> p
              \<and> handleReorderArticle aid Down (Some p') = Some p))"
  using handleReorderFolder_up_down[of p m fid] handleReorderArticle_up_down[of p n aid]
  by blast

theorem C4_reorder_up_then_down_witness:
  "distinct (map folder_id (folders atlasProject))
   \<and> find (\<lambda>f. folder_id f = ''f2'') (folders atlasProject) = Some (folders atlasProject ! 1)
   \<and> distinct (map folder_sortOrder
         (filter (\<lambda>f. folder_parentId f = None) (folders atlasProject)))
   \<and> folder_id (hd (sort_key folder_sortOrder
         (filter (\<lambda>f. folder_parentId f = None) (folders atlasProject)))) \<noteq> ''f2''
   \<and> (\<exists>p'. handleReorderFolder ''f2'' Up (Some atlasProject) = Inr (Some p') \<and> p' \<noteq> atlasProject
           \<and> handleReorderFolder ''f2'' Down (Some p') = Inr (Some atlasProject))
   \<and> distinct (map article_id (articles atlasProject))
   \<and> find (\<lambda>a. article_id a = ''a4'') (articles atlasProject) = Some (articles atlasProject ! 3)
   \<and> distinct (map article_sortOrder
         (filter (\<lambda>a. article_parentId a = None \<and> article_folderId a = ''f3'')
                 (articles atlasProject)))
   \<and> article_id (hd (sort_key article_sortOrder
         (filter (\<lambda>a. article_parentId a = None \<and> article_folderId a = ''f3'')
                 (articles atlasProject)))) \<noteq> ''a4''
   \<and> (\<exists>p'. handleReorderArticle ''a4'' Up (Some atlasProject) = Some p' \<and> p' \<noteq> atlasProject
           \<and> handleReorderArticle ''a4'' Down (Some p') = Some atlasProject)"
  using C4_reorder_up_then_down[where p = atlasProject
          and fid = "''f2''" and m = "folders atlasProject ! 1"
          and aid = "''a4''" and n = "articles atlasProject ! 3"]
  by simp

text \<open>
  Where siblings share a \<open>sortOrder\<close> the second exchange can pick another sibling:
  with World and Drafts at 1 and Places at 0, moving World up and then down ends with
  Drafts at 0 and World still in front of Places.
\<close>

lemma reorder_with_tied_sortOrders:
  "handleReorderFolder ''f1'' Up (Some tiedOrders)
     = Inr (Some (tiedOrders\<lparr>folders :=
         [(folders tiedOrders ! 0)\<lparr>folder_sortOrder := 0\<rparr>,
          folders tiedOrders ! 1,
          (folders tiedOrders ! 2)\<lparr>folder_sortOrder := 1\<rparr>]\<rparr>))
   \<and> handleReorderFolder ''f1'' Down
         (Some (tiedOrders\<lparr>folders :=
            [(folders tiedOrders ! 0)\<lparr>folder_sortOrder := 0\<rparr>,
             folders tiedOrders ! 1,
             (folders tiedOrders ! 2)\<lparr>folder_sortOrder := 1\<rparr>]\<rparr>))
     = Inr (Some (tiedOrders\<lparr>folders :=
         [folders tiedOrders ! 0,
          (folders tiedOrders ! 1)\<lparr>folder_sortOrder := 0\<rparr>,
          (folders tiedOrders ! 2)\<lparr>folder_sortOrder := 1\<rparr>]\<rparr>))"
  by (simp add: handleReorderFolder_def reorderFolder_swap_def at_index_def Let_def)

end
